theory Spec2Isabelle
  imports Main "HOL-Library.Product_Lexorder"
begin

section \<open>Row-Col-Game: board manager, strategies and turn loop\<close>

text \<open>
  A shallow embedding of \<^verbatim>\<open>board_manager.py\<close>, \<^verbatim>\<open>strategies.py\<close> and the turn loop
  of \<^verbatim>\<open>game_engine.py\<close>. Python integers are \<open>int\<close>, a removed cell (\<^verbatim>\<open>None\<close>) is
  \<open>None\<close>, exceptions are values of \<open>error\<close>, and a method that mutates the board
  returns the board it leaves behind next to its result, also when it raises.
\<close>

subsection \<open>Errors and Python list indexing\<close>

datatype error =
  ValueError | IndexError | TypeError | RuntimeError
  | KeyboardInterrupt | SystemExit | EOFError

text \<open>
  \<^verbatim>\<open>xs[i]\<close>: a negative index counts from the end, anything outside
  \<open>-len(xs) \<le> i < len(xs)\<close> raises \<^verbatim>\<open>IndexError\<close>.
\<close>

definition py_index :: "'a list \<Rightarrow> int \<Rightarrow> nat option" where
  "py_index xs i =
     (let n = int (length xs); j = (if i < 0 then n + i else i)
      in if 0 \<le> j \<and> j < n then Some (nat j) else None)"

definition py_getitem :: "'a list \<Rightarrow> int \<Rightarrow> error + 'a" where
  "py_getitem xs i = (case py_index xs i of None \<Rightarrow> Inl IndexError | Some j \<Rightarrow> Inr (xs ! j))"

definition py_setitem :: "'a list \<Rightarrow> int \<Rightarrow> 'a \<Rightarrow> error + 'a list" where
  "py_setitem xs i v = (case py_index xs i of None \<Rightarrow> Inl IndexError | Some j \<Rightarrow> Inr (xs[j := v]))"

text \<open>\<^verbatim>\<open>range(n)\<close> is \<open>0, \<dots>, n - 1\<close>, empty when \<open>n \<le> 0\<close>.\<close>

definition py_range :: "int \<Rightarrow> int list" where
  "py_range n = map int [0..<nat n]"

text \<open>\<^verbatim>\<open>v or 0\<close> on an optional integer: \<^verbatim>\<open>None\<close> and \<open>0\<close> both give \<open>0\<close>.\<close>

definition or0 :: "int option \<Rightarrow> int" where
  "or0 v = (case v of None \<Rightarrow> 0 | Some x \<Rightarrow> (if x = 0 then 0 else x))"

subsection \<open>The library generator\<close>

text \<open>
  \<^verbatim>\<open>random.Random\<close> belongs to the Python library, not to the repository, so it is a
  parameter: \<open>seed_state\<close> builds the generator state from an integer seed and
  \<open>randint\<close> draws one integer and advances the state. \<^verbatim>\<open>random.Random(None)\<close> seeds
  itself from the operating system; that value is the argument \<open>entropy\<close> below.
\<close>

record 'g random_lib =
  seed_state :: "int \<Rightarrow> 'g"
  randint :: "'g \<Rightarrow> int \<Rightarrow> int \<Rightarrow> int \<times> 'g"

definition Random :: "'g random_lib \<Rightarrow> int \<Rightarrow> int option \<Rightarrow> 'g" where
  "Random L entropy seed = (case seed of None \<Rightarrow> seed_state L entropy | Some s \<Rightarrow> seed_state L s)"

subsection \<open>BoardManager\<close>

type_synonym position = "int \<times> int"

type_synonym grid = "int option list list"

record 'g board_manager =
  size_bm :: int
  random_bm :: 'g
  board :: grid
  last_removed_pos :: "position option"

text \<open>
  \<^verbatim>\<open>_init_board\<close>, preset branch: the two nested \<^verbatim>\<open>for _ in range(self.size)\<close> loops
  with the running index \<open>idx\<close>. The loop variable is unused, so the loops count down
  the iterations that remain.
\<close>

fun preset_row :: "int list \<Rightarrow> nat \<Rightarrow> int \<Rightarrow> int option list \<Rightarrow> error + (int option list \<times> int)" where
  "preset_row preset_board 0 idx row = Inr (row, idx)"
| "preset_row preset_board (Suc n) idx row =
     (case py_getitem preset_board idx of
        Inl e \<Rightarrow> Inl e
      | Inr v \<Rightarrow> preset_row preset_board n (idx + 1) (row @ [Some v]))"

fun preset_rows :: "int list \<Rightarrow> int \<Rightarrow> nat \<Rightarrow> int \<Rightarrow> grid \<Rightarrow> error + grid" where
  "preset_rows preset_board sz 0 idx g = Inr g"
| "preset_rows preset_board sz (Suc n) idx g =
     (case preset_row preset_board (nat sz) idx [] of
        Inl e \<Rightarrow> Inl e
      | Inr (row, idx') \<Rightarrow> preset_rows preset_board sz n idx' (g @ [row]))"

text \<open>
  Random branch: \<^verbatim>\<open>[[self.random.randint(1, 9) for _ in range(self.size)] for _ in range(self.size)]\<close>,
  the generator state threaded through the draws in the order Python makes them.
\<close>

fun random_row :: "'g random_lib \<Rightarrow> nat \<Rightarrow> 'g \<Rightarrow> int option list \<Rightarrow> int option list \<times> 'g" where
  "random_row L 0 st row = (row, st)"
| "random_row L (Suc n) st row =
     (case randint L st 1 9 of (v, st') \<Rightarrow> random_row L n st' (row @ [Some v]))"

fun random_rows :: "'g random_lib \<Rightarrow> int \<Rightarrow> nat \<Rightarrow> 'g \<Rightarrow> grid \<Rightarrow> grid \<times> 'g" where
  "random_rows L sz 0 st g = (g, st)"
| "random_rows L sz (Suc n) st g =
     (case random_row L (nat sz) st [] of (row, st') \<Rightarrow> random_rows L sz n st' (g @ [row]))"

definition init_board :: "'g random_lib \<Rightarrow> int \<Rightarrow> 'g \<Rightarrow> int list option \<Rightarrow> error + (grid \<times> 'g)" where
  "init_board L sz st preset_board =
     (case preset_board of
        Some pb \<Rightarrow>
          (let expected = sz * sz in
           if int (length pb) \<noteq> expected then Inl ValueError
           else (case preset_rows pb sz (nat sz) 0 [] of
                   Inl e \<Rightarrow> Inl e
                 | Inr g \<Rightarrow> Inr (g, st)))
      | None \<Rightarrow> Inr (random_rows L sz (nat sz) st []))"

text \<open>\<^verbatim>\<open>BoardManager.__init__(size, seed, preset_board)\<close>.\<close>

definition BoardManager :: "'g random_lib \<Rightarrow> int \<Rightarrow> int \<Rightarrow> int option \<Rightarrow> int list option \<Rightarrow> error + 'g board_manager" where
  "BoardManager L entropy sz seed preset_board =
     (case init_board L sz (Random L entropy seed) preset_board of
        Inl e \<Rightarrow> Inl e
      | Inr (g, st) \<Rightarrow>
          Inr \<lparr>size_bm = sz, random_bm = st, board = g, last_removed_pos = None\<rparr>)"

text \<open>\<^verbatim>\<open>self.board[r][c]\<close> read and written; each row is a list object of its own.\<close>

definition board_get :: "'g board_manager \<Rightarrow> int \<Rightarrow> int \<Rightarrow> error + int option" where
  "board_get b r c =
     (case py_getitem (board b) r of Inl e \<Rightarrow> Inl e | Inr row \<Rightarrow> py_getitem row c)"

definition board_set :: "'g board_manager \<Rightarrow> int \<Rightarrow> int \<Rightarrow> int option \<Rightarrow> error + 'g board_manager" where
  "board_set b r c v =
     (case py_index (board b) r of
        None \<Rightarrow> Inl IndexError
      | Some i \<Rightarrow>
          (case py_setitem (board b ! i) c v of
             Inl e \<Rightarrow> Inl e
           | Inr row' \<Rightarrow> Inr (b\<lparr>board := (board b)[i := row']\<rparr>)))"

definition in_bounds :: "'g board_manager \<Rightarrow> position \<Rightarrow> bool" where
  "in_bounds b pos =
     (case pos of (r, c) \<Rightarrow> 0 \<le> r \<and> r < size_bm b \<and> 0 \<le> c \<and> c < size_bm b)"

definition is_available :: "'g board_manager \<Rightarrow> position \<Rightarrow> error + bool" where
  "is_available b pos =
     (case pos of (r, c) \<Rightarrow>
        if in_bounds b pos
        then (case board_get b r c of Inl e \<Rightarrow> Inl e | Inr v \<Rightarrow> Inr (v \<noteq> None))
        else Inr False)"

definition get_value :: "'g board_manager \<Rightarrow> position \<Rightarrow> error + int option" where
  "get_value b pos = (case pos of (r, c) \<Rightarrow> board_get b r c)"

text \<open>
  \<^verbatim>\<open>remove_and_get\<close>: the raise for an unavailable position comes before any write, so
  the board returned with the error is the one passed in.
\<close>

definition remove_and_get :: "'g board_manager \<Rightarrow> position \<Rightarrow> (error + int) \<times> 'g board_manager" where
  "remove_and_get b pos =
     (case is_available b pos of
        Inl e \<Rightarrow> (Inl e, b)
      | Inr ok \<Rightarrow>
          if \<not> ok then (Inl ValueError, b)
          else (case pos of (r, c) \<Rightarrow>
            (case board_get b r c of
               Inl e \<Rightarrow> (Inl e, b)
             | Inr val \<Rightarrow>
                 (case board_set b r c None of
                    Inl e \<Rightarrow> (Inl e, b)
                  | Inr b1 \<Rightarrow>
                      (let b2 = b1\<lparr>last_removed_pos := Some (r, c)\<rparr>
                       in case val of
                            None \<Rightarrow> (Inl TypeError, b2)
                          | Some v \<Rightarrow> (Inr v, b2))))))"

text \<open>\<^verbatim>\<open>get_all_available_positions\<close>: rows outside, columns inside.\<close>

fun all_available_cols :: "'g board_manager \<Rightarrow> int \<Rightarrow> int list \<Rightarrow> position list \<Rightarrow> error + position list" where
  "all_available_cols b r [] out = Inr out"
| "all_available_cols b r (c # cs) out =
     (case board_get b r c of
        Inl e \<Rightarrow> Inl e
      | Inr v \<Rightarrow> all_available_cols b r cs (if v \<noteq> None then out @ [(r, c)] else out))"

fun all_available_rows :: "'g board_manager \<Rightarrow> int list \<Rightarrow> position list \<Rightarrow> error + position list" where
  "all_available_rows b [] out = Inr out"
| "all_available_rows b (r # rs) out =
     (case all_available_cols b r (py_range (size_bm b)) out of
        Inl e \<Rightarrow> Inl e
      | Inr out' \<Rightarrow> all_available_rows b rs out')"

definition get_all_available_positions :: "'g board_manager \<Rightarrow> error + position list" where
  "get_all_available_positions b = all_available_rows b (py_range (size_bm b)) []"

text \<open>
  \<^verbatim>\<open>get_allowed_positions\<close>: the row loop, then the column loop; \<^verbatim>\<open>r != r0 and \<dots>\<close>
  does not read the cell of the intersection row.
\<close>

fun allowed_row :: "'g board_manager \<Rightarrow> int \<Rightarrow> int list \<Rightarrow> position list \<Rightarrow> error + position list" where
  "allowed_row b r0 [] allowed = Inr allowed"
| "allowed_row b r0 (c # cs) allowed =
     (case board_get b r0 c of
        Inl e \<Rightarrow> Inl e
      | Inr v \<Rightarrow> allowed_row b r0 cs (if v \<noteq> None then allowed @ [(r0, c)] else allowed))"

fun allowed_col :: "'g board_manager \<Rightarrow> int \<Rightarrow> int \<Rightarrow> int list \<Rightarrow> position list \<Rightarrow> error + position list" where
  "allowed_col b r0 c0 [] allowed = Inr allowed"
| "allowed_col b r0 c0 (r # rs) allowed =
     (if r \<noteq> r0
      then (case board_get b r c0 of
              Inl e \<Rightarrow> Inl e
            | Inr v \<Rightarrow> allowed_col b r0 c0 rs (if v \<noteq> None then allowed @ [(r, c0)] else allowed))
      else allowed_col b r0 c0 rs allowed)"

definition get_allowed_positions :: "'g board_manager \<Rightarrow> position \<Rightarrow> error + position list" where
  "get_allowed_positions b last_pos =
     (case last_pos of (r0, c0) \<Rightarrow>
        (case allowed_row b r0 (py_range (size_bm b)) [] of
           Inl e \<Rightarrow> Inl e
         | Inr allowed \<Rightarrow> allowed_col b r0 c0 (py_range (size_bm b)) allowed))"

text \<open>\<^verbatim>\<open>max_remaining_value\<close>: the running maximum starts at \<open>0\<close>.\<close>

fun max_remaining_cols :: "'g board_manager \<Rightarrow> int \<Rightarrow> int list \<Rightarrow> int \<Rightarrow> error + int" where
  "max_remaining_cols b r [] max_val = Inr max_val"
| "max_remaining_cols b r (c # cs) max_val =
     (case board_get b r c of
        Inl e \<Rightarrow> Inl e
      | Inr val \<Rightarrow>
          max_remaining_cols b r cs
            (case val of None \<Rightarrow> max_val | Some x \<Rightarrow> (if x > max_val then x else max_val)))"

fun max_remaining_rows :: "'g board_manager \<Rightarrow> int list \<Rightarrow> int \<Rightarrow> error + int" where
  "max_remaining_rows b [] max_val = Inr max_val"
| "max_remaining_rows b (r # rs) max_val =
     (case max_remaining_cols b r (py_range (size_bm b)) max_val of
        Inl e \<Rightarrow> Inl e
      | Inr m \<Rightarrow> max_remaining_rows b rs m)"

definition max_remaining_value :: "'g board_manager \<Rightarrow> error + int" where
  "max_remaining_value b = max_remaining_rows b (py_range (size_bm b)) 0"

text \<open>
  The shape every constructed board has and every operation keeps: \<open>size\<close> rows of
  \<open>size\<close> cells (no rows when \<open>size \<le> 0\<close>).
\<close>

definition wf_board :: "'g board_manager \<Rightarrow> bool" where
  "wf_board b =
     (length (board b) = nat (size_bm b) \<and> list_all (\<lambda>row. length row = nat (size_bm b)) (board b))"

definition cell_at :: "'g board_manager \<Rightarrow> position \<Rightarrow> int option" where
  "cell_at b pos = (case pos of (r, c) \<Rightarrow> board b ! nat r ! nat c)"

subsection \<open>Strategies\<close>

text \<open>
  \<^verbatim>\<open>_best_by_key\<close>. The key function may write to the board (the lookahead does), so
  it takes the board and returns the one it leaves behind. A key is a Python tuple of
  integers, compared lexicographically: a pair or a triple under the lexicographic
  product order; the one-element tuple of the greedy strategy is its element.
\<close>

fun best_by_key_loop ::
  "(position \<Rightarrow> 's \<Rightarrow> (error + 'k::ord) \<times> 's) \<Rightarrow> bool \<Rightarrow> position list \<Rightarrow>
   position option \<Rightarrow> 'k option \<Rightarrow> 's \<Rightarrow> (error + position option) \<times> 's" where
  "best_by_key_loop key_fn reverse [] best_pos best_key s = (Inr best_pos, s)"
| "best_by_key_loop key_fn reverse (pos # rest) best_pos best_key s =
     (case key_fn pos s of
        (Inl e, s') \<Rightarrow> (Inl e, s')
      | (Inr k, s') \<Rightarrow>
          (case best_key of
             None \<Rightarrow> best_by_key_loop key_fn reverse rest (Some pos) (Some k) s'
           | Some bk \<Rightarrow>
               if (if reverse then bk < k else k < bk)
               then best_by_key_loop key_fn reverse rest (Some pos) (Some k) s'
               else best_by_key_loop key_fn reverse rest best_pos best_key s'))"

definition best_by_key ::
  "position list \<Rightarrow> (position \<Rightarrow> 's \<Rightarrow> (error + 'k::ord) \<times> 's) \<Rightarrow> bool \<Rightarrow> 's \<Rightarrow>
   (error + position option) \<times> 's" where
  "best_by_key candidates key_fn reverse s = best_by_key_loop key_fn reverse candidates None None s"

text \<open>
  The expression every strategy and the turn loop start with:
  \<^verbatim>\<open>board.get_all_available_positions() if last_pos is None else board.get_allowed_positions(last_pos)\<close>.
\<close>

definition allowed_for :: "'g board_manager \<Rightarrow> position option \<Rightarrow> error + position list" where
  "allowed_for b last_pos =
     (case last_pos of None \<Rightarrow> get_all_available_positions b | Some lp \<Rightarrow> get_allowed_positions b lp)"

definition metric_greedy :: "position \<Rightarrow> 'g board_manager \<Rightarrow> (error + int) \<times> 'g board_manager" where
  "metric_greedy p b = (case get_value b p of Inl e \<Rightarrow> (Inl e, b) | Inr v \<Rightarrow> (Inr (or0 v), b))"

definition strategy_greedy_maximize ::
  "'g board_manager \<Rightarrow> position option \<Rightarrow> (error + position option) \<times> 'g board_manager" where
  "strategy_greedy_maximize b last_pos =
     (case allowed_for b last_pos of
        Inl e \<Rightarrow> (Inl e, b)
      | Inr allowed \<Rightarrow>
          if allowed = [] then (Inl ValueError, b)
          else best_by_key allowed metric_greedy True b)"

text \<open>\<^verbatim>\<open>(board.get_value(p) or 0) for p in opp_options\<close> and Python's \<^verbatim>\<open>min\<close>.\<close>

fun values_or0 :: "'g board_manager \<Rightarrow> position list \<Rightarrow> error + int list" where
  "values_or0 b [] = Inr []"
| "values_or0 b (p # ps) =
     (case get_value b p of
        Inl e \<Rightarrow> Inl e
      | Inr v \<Rightarrow> (case values_or0 b ps of Inl e \<Rightarrow> Inl e | Inr vs \<Rightarrow> Inr (or0 v # vs)))"

definition py_min :: "int list \<Rightarrow> error + int" where
  "py_min xs = (case xs of [] \<Rightarrow> Inl ValueError | x # rest \<Rightarrow> Inr (fold min rest x))"

text \<open>
  The three lookahead metrics. An exception between the simulated removal and the
  restore leaves the cell removed: the board returned with the error is the modified one.
\<close>

definition metric_future_min ::
  "position \<Rightarrow> 'g board_manager \<Rightarrow> (error + int \<times> int) \<times> 'g board_manager" where
  "metric_future_min pos b =
     (case get_value b pos of
        Inl e \<Rightarrow> (Inl e, b)
      | Inr v0 \<Rightarrow>
     (let val_now = or0 v0 in
      case pos of (r, c) \<Rightarrow>
     (case board_get b r c of
        Inl e \<Rightarrow> (Inl e, b)
      | Inr saved \<Rightarrow>
     (case board_set b r c None of
        Inl e \<Rightarrow> (Inl e, b)
      | Inr b1 \<Rightarrow>
     (case get_allowed_positions b1 pos of
        Inl e \<Rightarrow> (Inl e, b1)
      | Inr opp_options \<Rightarrow>
     (case (if opp_options \<noteq> []
            then (case values_or0 b1 opp_options of Inl e \<Rightarrow> Inl e | Inr vs \<Rightarrow> py_min vs)
            else Inr 0) of
        Inl e \<Rightarrow> (Inl e, b1)
      | Inr min_opp_val \<Rightarrow>
     (case board_set b1 r c saved of
        Inl e \<Rightarrow> (Inl e, b1)
      | Inr b2 \<Rightarrow> (Inr (val_now - min_opp_val, val_now), b2))))))))"

definition strategy_maximize_future_min ::
  "'g board_manager \<Rightarrow> position option \<Rightarrow> (error + position option) \<times> 'g board_manager" where
  "strategy_maximize_future_min b last_pos =
     (case allowed_for b last_pos of
        Inl e \<Rightarrow> (Inl e, b)
      | Inr allowed \<Rightarrow>
          if allowed = [] then (Inl ValueError, b)
          else best_by_key allowed metric_future_min True b)"

definition metric_opponent_options ::
  "position \<Rightarrow> 'g board_manager \<Rightarrow> (error + int \<times> int) \<times> 'g board_manager" where
  "metric_opponent_options pos b =
     (case pos of (r, c) \<Rightarrow>
     (case board_get b r c of
        Inl e \<Rightarrow> (Inl e, b)
      | Inr saved \<Rightarrow>
     (case board_set b r c None of
        Inl e \<Rightarrow> (Inl e, b)
      | Inr b1 \<Rightarrow>
     (case get_allowed_positions b1 pos of
        Inl e \<Rightarrow> (Inl e, b1)
      | Inr opp_options \<Rightarrow>
     (let count = int (length opp_options) in
      case board_set b1 r c saved of
        Inl e \<Rightarrow> (Inl e, b1)
      | Inr b2 \<Rightarrow>
     (case get_value b2 pos of
        Inl e \<Rightarrow> (Inl e, b2)
      | Inr v \<Rightarrow> (Inr (- count, or0 v), b2)))))))"

definition strategy_minimize_opponent_options ::
  "'g board_manager \<Rightarrow> position option \<Rightarrow> (error + position option) \<times> 'g board_manager" where
  "strategy_minimize_opponent_options b last_pos =
     (case allowed_for b last_pos of
        Inl e \<Rightarrow> (Inl e, b)
      | Inr allowed \<Rightarrow>
          if allowed = [] then (Inl ValueError, b)
          else best_by_key allowed metric_opponent_options True b)"

text \<open>The loop over \<^verbatim>\<open>opp_options\<close> that sets \<^verbatim>\<open>contains_global_max\<close> and counts \<^verbatim>\<open>top_hits\<close>.\<close>

fun count_top_hits ::
  "'g board_manager \<Rightarrow> int \<Rightarrow> position list \<Rightarrow> int \<Rightarrow> int \<Rightarrow> error + (int \<times> int)" where
  "count_top_hits b global_max [] contains_global_max top_hits = Inr (contains_global_max, top_hits)"
| "count_top_hits b global_max (p # ps) contains_global_max top_hits =
     (case get_value b p of
        Inl e \<Rightarrow> Inl e
      | Inr v \<Rightarrow>
          (let val = or0 v in
           if val = global_max then count_top_hits b global_max ps 1 (top_hits + 1)
           else count_top_hits b global_max ps contains_global_max top_hits))"

definition metric_high_value ::
  "int \<Rightarrow> position \<Rightarrow> 'g board_manager \<Rightarrow> (error + int \<times> int \<times> int) \<times> 'g board_manager" where
  "metric_high_value global_max pos b =
     (case pos of (r, c) \<Rightarrow>
     (case board_get b r c of
        Inl e \<Rightarrow> (Inl e, b)
      | Inr saved \<Rightarrow>
     (case board_set b r c None of
        Inl e \<Rightarrow> (Inl e, b)
      | Inr b1 \<Rightarrow>
     (case get_allowed_positions b1 pos of
        Inl e \<Rightarrow> (Inl e, b1)
      | Inr opp_options \<Rightarrow>
     (case count_top_hits b1 global_max opp_options 0 0 of
        Inl e \<Rightarrow> (Inl e, b1)
      | Inr (contains_global_max, top_hits) \<Rightarrow>
     (case board_set b1 r c saved of
        Inl e \<Rightarrow> (Inl e, b1)
      | Inr b2 \<Rightarrow>
     (case get_value b2 pos of
        Inl e \<Rightarrow> (Inl e, b2)
      | Inr v \<Rightarrow> (Inr (- contains_global_max, - top_hits, or0 v), b2))))))))"

definition strategy_high_value_preservation ::
  "'g board_manager \<Rightarrow> position option \<Rightarrow> (error + position option) \<times> 'g board_manager" where
  "strategy_high_value_preservation b last_pos =
     (case allowed_for b last_pos of
        Inl e \<Rightarrow> (Inl e, b)
      | Inr allowed \<Rightarrow>
          if allowed = [] then (Inl ValueError, b)
          else (case max_remaining_value b of
                  Inl e \<Rightarrow> (Inl e, b)
                | Inr global_max \<Rightarrow> best_by_key allowed (metric_high_value global_max) True b))"




subsection \<open>The turn loop of \<^verbatim>\<open>start_game\<close>\<close>


















section \<open>Reference descriptions\<close>

text \<open>
  What the specification says the operations compute, written as pure functions of the
  board; the theorems below compare the code with them.
\<close>

text \<open>The row-major grid a preset list describes, \<open>n\<close> cells to the row.\<close>

definition preset_grid :: "int list \<Rightarrow> nat \<Rightarrow> nat \<Rightarrow> nat \<Rightarrow> grid" where
  "preset_grid pb n off k = map (\<lambda>j. map Some (take n (drop (off + j * n) pb))) [0..<k]"

text \<open>The board with one cell marked removed and nothing else touched.\<close>

definition removed :: "'g board_manager \<Rightarrow> position \<Rightarrow> 'g board_manager" where
  "removed b pos =
     (case pos of (r, c) \<Rightarrow> b\<lparr>board := (board b)[nat r := (board b ! nat r)[nat c := None]]\<rparr>)"

definition available :: "'g board_manager \<Rightarrow> position \<Rightarrow> bool" where
  "available b pos = (in_bounds b pos \<and> cell_at b pos \<noteq> None)"

text \<open>Available cells of a row by ascending column, of a column by ascending row.\<close>

definition row_cells :: "'g board_manager \<Rightarrow> int \<Rightarrow> position list" where
  "row_cells b r0 = map (Pair r0) (filter (\<lambda>c. cell_at b (r0, c) \<noteq> None) (py_range (size_bm b)))"

definition column_cells :: "'g board_manager \<Rightarrow> int \<Rightarrow> int \<Rightarrow> position list" where
  "column_cells b r0 c0 =
     map (\<lambda>r. (r, c0)) (filter (\<lambda>r. r \<noteq> r0 \<and> cell_at b (r, c0) \<noteq> None) (py_range (size_bm b)))"

definition all_cells :: "'g board_manager \<Rightarrow> position list" where
  "all_cells b = concat (map (row_cells b) (py_range (size_bm b)))"

definition legal_set :: "'g board_manager \<Rightarrow> position option \<Rightarrow> position list" where
  "legal_set b last_pos =
     (case last_pos of
        None \<Rightarrow> all_cells b
      | Some (r0, c0) \<Rightarrow> row_cells b r0 @ column_cells b r0 c0)"

text \<open>The value a cell holds, \<open>0\<close> for a removed one.\<close>

definition value_of :: "'g board_manager \<Rightarrow> position \<Rightarrow> int" where
  "value_of b pos = (case cell_at b pos of None \<Rightarrow> 0 | Some v \<Rightarrow> v)"

text \<open>The opponent's replies once the candidate has been taken.\<close>

definition replies :: "'g board_manager \<Rightarrow> position \<Rightarrow> position list" where
  "replies b pos = legal_set (removed b pos) (Some pos)"

text \<open>The ranking keys of section 4.3 of the specification.\<close>

definition key_future_min :: "'g board_manager \<Rightarrow> position \<Rightarrow> int \<times> int" where
  "key_future_min b pos =
     (let worst = (if replies b pos = [] then 0
                   else Min (set (map (value_of (removed b pos)) (replies b pos))))
      in (value_of b pos - worst, value_of b pos))"

definition key_opponent_options :: "'g board_manager \<Rightarrow> position \<Rightarrow> int \<times> int" where
  "key_opponent_options b pos = (- int (length (replies b pos)), value_of b pos)"

definition global_max_hits :: "'g board_manager \<Rightarrow> int \<Rightarrow> position \<Rightarrow> nat" where
  "global_max_hits b gm pos =
     length (filter (\<lambda>p. value_of (removed b pos) p = gm) (replies b pos))"

definition key_high_value :: "'g board_manager \<Rightarrow> int \<Rightarrow> position \<Rightarrow> int \<times> int \<times> int" where
  "key_high_value b gm pos =
     (- (if 0 < global_max_hits b gm pos then 1 else 0),
      - int (global_max_hits b gm pos),
      value_of b pos)"

text \<open>
  \<open>p\<close> is the first candidate of \<open>xs\<close> whose key is maximal: every candidate before it
  has a smaller key, none after it has a larger one.
\<close>

definition first_max :: "(position \<Rightarrow> 'k::linorder) \<Rightarrow> position list \<Rightarrow> position \<Rightarrow> bool" where
  "first_max key xs p =
     (\<exists>pre post. xs = pre @ p # post \<and> list_all (\<lambda>q. key q < key p) pre
        \<and> list_all (\<lambda>q. key q \<le> key p) post)"

text \<open>The running best of \<^verbatim>\<open>_best_by_key\<close> with \<^verbatim>\<open>reverse=True\<close> for a key without effects.\<close>

fun running_best :: "(position \<Rightarrow> 'k::linorder) \<Rightarrow> position list \<Rightarrow> position \<Rightarrow> position" where
  "running_best key [] best = best"
| "running_best key (p # ps) best = running_best key ps (if key best < key p then p else best)"


section \<open>Sample inputs\<close>

definition board_2x2 :: "unit board_manager" where
  "board_2x2 = \<lparr>size_bm = 2, random_bm = (), board = [[Some 1, Some 2], [None, Some 4]],
                last_removed_pos = Some (1, 0)\<rparr>"

definition board_3x3 :: "unit board_manager" where
  "board_3x3 = \<lparr>size_bm = 3, random_bm = (),
                board = [[Some 1, Some 2, Some 3], [Some 4, Some 5, Some 6], [Some 7, Some 8, Some 9]],
                last_removed_pos = None\<rparr>"

text \<open>The 3 by 3 board of the preset \<open>1, \<dots>, 9\<close> after the opening move at \<open>(0, 0)\<close>.\<close>

definition board_opened :: "unit board_manager" where
  "board_opened = \<lparr>size_bm = 3, random_bm = (),
                   board = [[None, Some 2, Some 3], [Some 4, Some 5, Some 6], [Some 7, Some 8, Some 9]],
                   last_removed_pos = Some (0, 0)\<rparr>"

text \<open>
  The 3 by 3 board of the preset \<open>-9, -2, -5, -3, -1, -6, -4, -7, -8\<close> after the opening
  move at \<open>(0, 0)\<close>: every remaining value is negative.
\<close>

definition board_negative :: "nat board_manager" where
  "board_negative = \<lparr>size_bm = 3, random_bm = 0,
                     board = [[None, Some (- 2), Some (- 5)], [Some (- 3), Some (- 1), Some (- 6)],
                              [Some (- 4), Some (- 7), Some (- 8)]],
                     last_removed_pos = Some (0, 0)\<rparr>"

text \<open>A small congruential generator standing in for the library's.\<close>

definition sample_lib :: "nat random_lib" where
  "sample_lib =
     \<lparr>seed_state = (\<lambda>s. nat \<bar>s\<bar>),
      randint = (\<lambda>st lo hi. (lo + int (st mod nat (hi - lo + 1)), (st * 7 + 3) mod 101))\<rparr>"

section \<open>The state of the turn loop\<close>







section \<open>Indexing and construction\<close>


lemma py_index_in_range:
  "0 \<le> i \<Longrightarrow> i < int (length xs) \<Longrightarrow> py_index xs i = Some (nat i)"
  by (simp add: py_index_def)

lemma py_getitem_in_range:
  "0 \<le> i \<Longrightarrow> i < int (length xs) \<Longrightarrow> py_getitem xs i = Inr (xs ! nat i)"
  by (simp add: py_getitem_def py_index_in_range)

lemma py_setitem_in_range:
  "0 \<le> i \<Longrightarrow> i < int (length xs) \<Longrightarrow> py_setitem xs i v = Inr (xs[nat i := v])"
  by (simp add: py_setitem_def py_index_in_range)

lemma set_py_range: "set (py_range n) = {i. 0 \<le> i \<and> i < n}"
proof -
  have "set (py_range n) = int ` {0..<nat n}" by (simp add: py_range_def)
  also have "\<dots> = {i. 0 \<le> i \<and> i < n}"
  proof (rule set_eqI)
    fix i show "i \<in> int ` {0..<nat n} \<longleftrightarrow> i \<in> {i. 0 \<le> i \<and> i < n}"
    proof
      assume "i \<in> int ` {0..<nat n}" then show "i \<in> {i. 0 \<le> i \<and> i < n}" by auto
    next
      assume "i \<in> {i. 0 \<le> i \<and> i < n}"
      then have "nat i \<in> {0..<nat n}" "i = int (nat i)" by auto
      then show "i \<in> int ` {0..<nat n}" by blast
    qed
  qed
  finally show ?thesis .
qed

lemma wf_row_length:
  "wf_board b \<Longrightarrow> 0 \<le> r \<Longrightarrow> r < size_bm b \<Longrightarrow> length (board b ! nat r) = nat (size_bm b)"
  by (simp add: wf_board_def list_all_length)

lemma board_get_wf:
  "wf_board b \<Longrightarrow> in_bounds b (r, c) \<Longrightarrow> board_get b r c = Inr (cell_at b (r, c))"
proof -
  assume wf: "wf_board b" and ib: "in_bounds b (r, c)"
  from ib have r: "0 \<le> r" "r < size_bm b" and c: "0 \<le> c" "c < size_bm b"
    by (simp_all add: in_bounds_def)
  from wf r have "py_getitem (board b) r = Inr (board b ! nat r)"
    by (simp add: wf_board_def py_getitem_in_range)
  moreover from c wf_row_length [OF wf r]
  have "py_getitem (board b ! nat r) c = Inr (board b ! nat r ! nat c)"
    by (simp add: py_getitem_in_range)
  ultimately show ?thesis by (simp add: board_get_def cell_at_def)
qed

lemma board_set_wf:
  "wf_board b \<Longrightarrow> in_bounds b (r, c) \<Longrightarrow>
   board_set b r c v = Inr (b\<lparr>board := (board b)[nat r := (board b ! nat r)[nat c := v]]\<rparr>)"
  by (simp add: board_set_def in_bounds_def wf_board_def py_index_in_range py_setitem_in_range list_all_length)

lemma wf_board_update:
  "wf_board b \<Longrightarrow> wf_board (b\<lparr>board := (board b)[i := (board b ! i)[j := v]]\<rparr>)"
  by (cases "i < length (board b)") (auto simp add: wf_board_def list_all_length nth_list_update)

lemma wf_board_last: "wf_board (b\<lparr>last_removed_pos := p\<rparr>) = wf_board b"
  by (simp add: wf_board_def)

lemma in_bounds_update [simp]:
  "in_bounds (b\<lparr>board := g\<rparr>) pos = in_bounds b pos"
  "in_bounds (b\<lparr>last_removed_pos := p\<rparr>) pos = in_bounds b pos"
  by (simp_all add: in_bounds_def)

lemma cell_at_update:
  "wf_board b \<Longrightarrow> in_bounds b (r, c) \<Longrightarrow> in_bounds b q \<Longrightarrow>
   cell_at (b\<lparr>board := (board b)[nat r := (board b ! nat r)[nat c := v]]\<rparr>) q
     = (if q = (r, c) then v else cell_at b q)"
  by (cases q) (auto simp add: cell_at_def in_bounds_def wf_board_def list_all_length nth_list_update)


lemma preset_row_ok:
  "0 \<le> idx \<Longrightarrow> nat idx + n \<le> length pb \<Longrightarrow>
   preset_row pb n idx row = Inr (row @ map Some (take n (drop (nat idx) pb)), idx + int n)"
proof (induction n arbitrary: idx row)
  case 0
  then show ?case by simp
next
  case (Suc n)
  from Suc.prems have lt: "nat idx < length pb" by simp
  with Suc.prems have g: "py_getitem pb idx = Inr (pb ! nat idx)"
    by (simp add: py_getitem_in_range)
  from Suc.prems have "nat (idx + 1) + n \<le> length pb" "0 \<le> idx + 1" by simp_all
  from Suc.IH [OF this(2) this(1)]
  have "preset_row pb n (idx + 1) (row @ [Some (pb ! nat idx)])
      = Inr ((row @ [Some (pb ! nat idx)]) @ map Some (take n (drop (nat (idx + 1)) pb)), idx + 1 + int n)" .
  moreover from Suc.prems have "nat (idx + 1) = Suc (nat idx)" by simp
  moreover from lt have "take (Suc n) (drop (nat idx) pb) = pb ! nat idx # take n (drop (Suc (nat idx)) pb)"
    by (simp add: Cons_nth_drop_Suc [symmetric])
  ultimately show ?case using g by simp
qed

lemma preset_grid_Suc:
  "preset_grid pb n off (Suc k) = map Some (take n (drop off pb)) # preset_grid pb n (off + n) k"
proof -
  have "[0..<Suc k] = 0 # map Suc [0..<k]"
    by (simp add: upt_conv_Cons map_Suc_upt del: upt_Suc)
  then show ?thesis
    by (simp add: preset_grid_def comp_def add.assoc del: upt_Suc)
qed

lemma preset_rows_ok:
  "0 \<le> idx \<Longrightarrow> nat idx + k * nat sz \<le> length pb \<Longrightarrow>
   preset_rows pb sz k idx g = Inr (g @ preset_grid pb (nat sz) (nat idx) k)"
proof (induction k arbitrary: idx g)
  case 0
  then show ?case by (simp add: preset_grid_def)
next
  case (Suc k)
  from Suc.prems have a: "nat idx + nat sz \<le> length pb" by simp
  have row: "preset_row pb (nat sz) idx [] = Inr (map Some (take (nat sz) (drop (nat idx) pb)), idx + int (nat sz))"
    using preset_row_ok [OF Suc.prems(1) a, of "[]"] by simp
  from Suc.prems have b: "0 \<le> idx + int (nat sz)" "nat (idx + int (nat sz)) + k * nat sz \<le> length pb"
    by (simp_all add: nat_add_distrib)
  from Suc.prems have c: "nat (idx + int (nat sz)) = nat idx + nat sz"
    by (simp add: nat_add_distrib)
  have "preset_rows pb sz (Suc k) idx g
      = preset_rows pb sz k (idx + int (nat sz)) (g @ [map Some (take (nat sz) (drop (nat idx) pb))])"
    by (simp only: preset_rows.simps row sum.case prod.case)
  also have "\<dots> = Inr ((g @ [map Some (take (nat sz) (drop (nat idx) pb))])
      @ preset_grid pb (nat sz) (nat idx + nat sz) k)"
    by (simp only: Suc.IH [OF b] c)
  finally show ?case by (simp add: preset_grid_Suc)
qed

lemma preset_size: "int (length pb) = sz * sz \<Longrightarrow> nat sz * nat sz \<le> length pb"
proof (cases "0 \<le> sz")
  case True
  assume "int (length pb) = sz * sz"
  then have "length pb = nat (sz * sz)" by simp
  with True show ?thesis by (simp add: nat_mult_distrib)
next
  case False
  then show ?thesis by simp
qed

lemma BoardManager_preset:
  "int (length pb) = sz * sz \<Longrightarrow>
   BoardManager L entropy sz seed (Some pb) =
     Inr \<lparr>size_bm = sz, random_bm = Random L entropy seed,
          board = preset_grid pb (nat sz) 0 (nat sz), last_removed_pos = None\<rparr>"
  using preset_rows_ok [of 0 "nat sz" sz pb "[]"] preset_size [of pb sz]
  by (simp add: BoardManager_def init_board_def)

lemma BoardManager_preset_bad:
  "int (length pb) \<noteq> sz * sz \<Longrightarrow> BoardManager L entropy sz seed (Some pb) = Inl ValueError"
  by (simp add: BoardManager_def init_board_def)

lemma length_preset_grid [simp]: "length (preset_grid pb n off k) = k"
  by (simp add: preset_grid_def)

lemma preset_grid_nth:
  "n * n \<le> length pb \<Longrightarrow> r < n \<Longrightarrow> c < n \<Longrightarrow>
   preset_grid pb n 0 n ! r ! c = Some (pb ! (r * n + c))"
proof -
  assume len: "n * n \<le> length pb" and r: "r < n" and c: "c < n"
  from r have "Suc r * n \<le> n * n" by (metis Suc_leI mult_le_mono1)
  with c len have "r * n + c < length pb" by simp
  with r c show ?thesis by (simp add: preset_grid_def)
qed

lemma preset_grid_wf:
  "n * n \<le> length pb \<Longrightarrow> list_all (\<lambda>row. length row = n) (preset_grid pb n 0 n)"
proof -
  assume len: "n * n \<le> length pb"
  have "\<And>j. j < n \<Longrightarrow> j * n + n \<le> length pb"
  proof -
    fix j assume "j < n"
    then have "Suc j * n \<le> n * n" by (metis Suc_leI mult_le_mono1)
    with len show "j * n + n \<le> length pb" by simp
  qed
  then have "\<And>j. j < n \<Longrightarrow> min (length pb - j * n) n = n" by fastforce
  then show ?thesis by (auto simp add: preset_grid_def list_all_iff)
qed

lemma random_row_length:
  "length (fst (random_row L n st row)) = length row + n"
  by (induction n arbitrary: st row) (auto split: prod.splits)

lemma random_rows_wf:
  "list_all (\<lambda>row. length row = nat sz) g \<Longrightarrow>
   length (fst (random_rows L sz k st g)) = length g + k \<and>
   list_all (\<lambda>row. length row = nat sz) (fst (random_rows L sz k st g))"
proof (induction k arbitrary: st g)
  case 0
  then show ?case by simp
next
  case (Suc k)
  obtain row st' where row: "random_row L (nat sz) st [] = (row, st')" by (cases "random_row L (nat sz) st []")
  with random_row_length [of L "nat sz" st "[]"] have "length row = nat sz" by simp
  with Suc.prems have "list_all (\<lambda>row. length row = nat sz) (g @ [row])" by simp
  from Suc.IH [OF this] row show ?case by simp
qed

lemma BoardManager_random:
  "BoardManager L entropy sz seed None =
     Inr \<lparr>size_bm = sz, random_bm = snd (random_rows L sz (nat sz) (Random L entropy seed) []),
          board = fst (random_rows L sz (nat sz) (Random L entropy seed) []), last_removed_pos = None\<rparr>"
  by (simp add: BoardManager_def init_board_def split: prod.splits)

lemma BoardManager_wf: "BoardManager L entropy sz seed preset = Inr b \<Longrightarrow> wf_board b \<and> size_bm b = sz"
proof (cases preset)
  case None
  assume "BoardManager L entropy sz seed preset = Inr b"
  with None random_rows_wf [of sz "[]" L "nat sz" "Random L entropy seed"] show ?thesis
    by (auto simp add: BoardManager_random wf_board_def)
next
  case (Some pb)
  assume b: "BoardManager L entropy sz seed preset = Inr b"
  show ?thesis
  proof (cases "int (length pb) = sz * sz")
    case True
    with b Some preset_grid_wf [OF preset_size [OF True]] show ?thesis
      by (auto simp add: BoardManager_preset wf_board_def)
  next
    case False
    with b Some show ?thesis by (simp add: BoardManager_preset_bad)
  qed
qed

section \<open>Removing a cell\<close>


lemma get_value_wf:
  "wf_board b \<Longrightarrow> in_bounds b pos \<Longrightarrow> get_value b pos = Inr (cell_at b pos)"
  by (cases pos) (simp add: get_value_def board_get_wf)

lemma is_available_wf:
  "wf_board b \<Longrightarrow> is_available b pos = Inr (in_bounds b pos \<and> cell_at b pos \<noteq> None)"
  by (cases pos) (simp add: is_available_def board_get_wf)

lemma remove_and_get_ok:
  "wf_board b \<Longrightarrow> in_bounds b pos \<Longrightarrow> cell_at b pos = Some v \<Longrightarrow>
   remove_and_get b pos = (Inr v, (removed b pos)\<lparr>last_removed_pos := Some pos\<rparr>)"
  by (cases pos) (simp add: remove_and_get_def is_available_wf board_get_wf board_set_wf removed_def)

lemma remove_and_get_fail:
  "wf_board b \<Longrightarrow> \<not> (in_bounds b pos \<and> cell_at b pos \<noteq> None) \<Longrightarrow>
   remove_and_get b pos = (Inl ValueError, b)"
  by (simp add: remove_and_get_def is_available_wf)

lemma wf_removed: "wf_board b \<Longrightarrow> wf_board (removed b pos)"
  by (cases pos) (simp add: removed_def wf_board_update)

lemma size_removed [simp]: "size_bm (removed b pos) = size_bm b"
  by (cases pos) (simp add: removed_def)

lemma in_bounds_removed [simp]: "in_bounds (removed b pos) q = in_bounds b q"
  by (simp add: in_bounds_def)

lemma cell_at_removed:
  "wf_board b \<Longrightarrow> in_bounds b pos \<Longrightarrow> in_bounds b q \<Longrightarrow>
   cell_at (removed b pos) q = (if q = pos then None else cell_at b q)"
  by (cases pos) (simp add: removed_def cell_at_update)

lemma cell_at_last [simp]: "cell_at (b\<lparr>last_removed_pos := p\<rparr>) q = cell_at b q"
  by (simp add: cell_at_def)

text \<open>
  Claim C3. On a well-formed board \<^verbatim>\<open>remove_and_get(pos)\<close> raises \<^verbatim>\<open>ValueError\<close> exactly when
  \<open>pos\<close> is out of bounds or its cell is already removed, and then returns the board as
  it was. Otherwise it returns the value the cell held, the cell is removed and no
  longer available, \<open>pos\<close> is the latest removed position, and every other cell reads
  as before.
\<close>

theorem remove_and_get_spec:
  assumes wf: "wf_board b"
  shows "if in_bounds b pos \<and> get_value b pos \<noteq> Inr None
         then \<exists>v b'. remove_and_get b pos = (Inr v, b') \<and>
                get_value b pos = Inr (Some v) \<and>
                is_available b pos = Inr True \<and>
                is_available b' pos = Inr False \<and>
                get_value b' pos = Inr None \<and>
                last_removed_pos b' = Some pos \<and>
                size_bm b' = size_bm b \<and> wf_board b' \<and>
                (\<forall>q. in_bounds b q \<and> q \<noteq> pos \<longrightarrow> get_value b' q = get_value b q)
         else is_available b pos = Inr False \<and> remove_and_get b pos = (Inl ValueError, b)"
proof (cases "in_bounds b pos \<and> cell_at b pos \<noteq> None")
  case True
  then obtain v where v: "cell_at b pos = Some v" and ib: "in_bounds b pos" by auto
  let ?b' = "(removed b pos)\<lparr>last_removed_pos := Some pos\<rparr>"
  have wf': "wf_board ?b'" using wf by (simp add: wf_board_last wf_removed)
  have ib': "\<And>q. in_bounds ?b' q = in_bounds b q" by simp
  have other: "\<forall>q. in_bounds b q \<and> q \<noteq> pos \<longrightarrow> get_value ?b' q = get_value b q"
    using wf wf' ib by (simp add: get_value_wf cell_at_removed)
  have "get_value ?b' pos = Inr None"
    using wf wf' ib by (simp add: get_value_wf cell_at_removed)
  moreover have "is_available ?b' pos = Inr False"
    using wf wf' ib by (simp add: is_available_wf cell_at_removed)
  moreover note remove_and_get_ok [OF wf ib v] other wf'
  ultimately show ?thesis using wf ib v by (simp add: get_value_wf is_available_wf)
next
  case False
  with wf show ?thesis
    by (auto simp add: remove_and_get_fail is_available_wf get_value_wf)
qed

lemmas eval_defs = py_index_def py_getitem_def py_setitem_def or0_def
  board_get_def board_set_def in_bounds_def is_available_def get_value_def remove_and_get_def
  get_all_available_positions_def get_allowed_positions_def max_remaining_value_def
  wf_board_def

theorem remove_and_get_spec_witness:
  "wf_board board_2x2 \<and>
   remove_and_get board_2x2 (0, 1) =
     (Inr 2, board_2x2\<lparr>board := [[Some 1, None], [None, Some 4]], last_removed_pos := Some (0, 1)\<rparr>) \<and>
   remove_and_get board_2x2 (1, 0) = (Inl ValueError, board_2x2) \<and>
   remove_and_get board_2x2 (2, 0) = (Inl ValueError, board_2x2)"
proof -
  have wf: "wf_board board_2x2" by (simp add: board_2x2_def wf_board_def)
  have a: "in_bounds board_2x2 (0, 1) \<and> get_value board_2x2 (0, 1) \<noteq> Inr None"
    by (simp add: board_2x2_def eval_defs)
  have b: "\<not> (in_bounds board_2x2 (1, 0) \<and> get_value board_2x2 (1, 0) \<noteq> Inr None)"
    by (simp add: board_2x2_def eval_defs)
  have c: "\<not> (in_bounds board_2x2 (2, 0) \<and> get_value board_2x2 (2, 0) \<noteq> Inr None)"
    by (simp add: board_2x2_def eval_defs)
  have "remove_and_get board_2x2 (0, 1) =
     (Inr 2, board_2x2\<lparr>board := [[Some 1, None], [None, Some 4]], last_removed_pos := Some (0, 1)\<rparr>)"
    by (simp add: board_2x2_def eval_defs)
  with wf remove_and_get_spec [OF wf, of "(1, 0)"] remove_and_get_spec [OF wf, of "(2, 0)"]
    remove_and_get_spec [OF wf, of "(0, 1)"] a b c
  show ?thesis by simp
qed

section \<open>Construction\<close>


lemma random_row_range:
  "(\<And>st. P (fst (randint L st 1 9))) \<Longrightarrow> list_all (\<lambda>v. \<exists>x. v = Some x \<and> P x) row \<Longrightarrow>
   list_all (\<lambda>v. \<exists>x. v = Some x \<and> P x) (fst (random_row L n st row))"
proof (induction n arbitrary: st row)
  case 0
  then show ?case by simp
next
  case (Suc n)
  obtain v st' where d: "randint L st 1 9 = (v, st')" by (cases "randint L st 1 9")
  with Suc.prems(1) [of st] have "P v" by simp
  with Suc.prems(2) have "list_all (\<lambda>v. \<exists>x. v = Some x \<and> P x) (row @ [Some v])" by simp
  from Suc.IH [OF Suc.prems(1) this] d show ?case by simp
qed

lemma random_rows_range:
  "(\<And>st. P (fst (randint L st 1 9))) \<Longrightarrow> list_all (list_all (\<lambda>v. \<exists>x. v = Some x \<and> P x)) g \<Longrightarrow>
   list_all (list_all (\<lambda>v. \<exists>x. v = Some x \<and> P x)) (fst (random_rows L sz k st g))"
proof (induction k arbitrary: st g)
  case 0
  then show ?case by simp
next
  case (Suc k)
  obtain row st' where d: "random_row L (nat sz) st [] = (row, st')" by (cases "random_row L (nat sz) st []")
  from random_row_range [of P L "[]" "nat sz" st, OF Suc.prems(1)] d
  have "list_all (\<lambda>v. \<exists>x. v = Some x \<and> P x) row" by simp
  with Suc.prems(2) have "list_all (list_all (\<lambda>v. \<exists>x. v = Some x \<and> P x)) (g @ [row])" by simp
  from Suc.IH [OF Suc.prems(1) this] d show ?case by simp
qed

lemma cell_at_nth:
  "wf_board b \<Longrightarrow> in_bounds b (r, c) \<Longrightarrow> list_all (list_all Q) (board b) \<Longrightarrow> Q (cell_at b (r, c))"
proof -
  assume wf: "wf_board b" and ib: "in_bounds b (r, c)" and q: "list_all (list_all Q) (board b)"
  from ib have r: "0 \<le> r" "r < size_bm b" and c: "0 \<le> c" "c < size_bm b"
    by (simp_all add: in_bounds_def)
  from wf r have "nat r < length (board b)" by (simp add: wf_board_def)
  with q have "list_all Q (board b ! nat r)" by (simp add: list_all_length)
  moreover from wf_row_length [OF wf r] c have "nat c < length (board b ! nat r)" by simp
  ultimately show ?thesis by (simp add: list_all_length cell_at_def)
qed

lemma preset_cell:
  assumes len: "int (length pb) = sz * sz"
    and b: "BoardManager L entropy sz seed (Some pb) = Inr b"
    and ib: "in_bounds b (r, c)"
  shows "get_value b (r, c) = Inr (Some (pb ! nat (r * sz + c)))"
proof -
  from b len have bd: "board b = preset_grid pb (nat sz) 0 (nat sz)" and sz: "size_bm b = sz"
    by (auto simp add: BoardManager_preset)
  from BoardManager_wf [OF b] have wf: "wf_board b" by simp
  from ib sz have r: "0 \<le> r" "r < sz" and c: "0 \<le> c" "c < sz" by (simp_all add: in_bounds_def)
  then have "nat r < nat sz" "nat c < nat sz" by simp_all
  from preset_grid_nth [OF preset_size [OF len] this]
  have "cell_at b (r, c) = Some (pb ! (nat r * nat sz + nat c))" by (simp add: cell_at_def bd)
  moreover from r c have "nat (r * sz + c) = nat r * nat sz + nat c"
    by (simp add: nat_add_distrib nat_mult_distrib)
  ultimately show ?thesis using get_value_wf [OF wf ib] by simp
qed

text \<open>
  Claim C9 (as amended). The constructor raises (a \<^verbatim>\<open>ValueError\<close>) exactly when a preset
  list is given whose length differs from \<open>size * size\<close>. It does not look at \<open>size\<close>
  otherwise: with no preset, or with a preset of exactly \<open>size * size\<close> integers, it
  succeeds for every integer \<open>size\<close>.
\<close>

theorem BoardManager_fails_iff:
  "(\<exists>e. BoardManager L entropy sz seed preset = Inl e)
     = (\<exists>pb. preset = Some pb \<and> int (length pb) \<noteq> sz * sz)
   \<and> (BoardManager L entropy sz seed preset = Inl ValueError
        \<or> (\<exists>b. BoardManager L entropy sz seed preset = Inr b \<and> size_bm b = sz \<and> wf_board b
              \<and> last_removed_pos b = None))"
proof (cases preset)
  case None
  then show ?thesis
    using BoardManager_wf [of L entropy sz seed None]
    by (simp add: BoardManager_random)
next
  case (Some pb)
  show ?thesis
  proof (cases "int (length pb) = sz * sz")
    case True
    with Some BoardManager_wf [of L entropy sz seed "Some pb"] show ?thesis
      by (simp add: BoardManager_preset)
  next
    case False
    with Some show ?thesis by (simp add: BoardManager_preset_bad)
  qed
qed

text \<open>The claim as the specification words it fails: size 1 with a one-element preset is accepted.\<close>

theorem BoardManager_size_one_counterexample:
  "BoardManager sample_lib 0 1 None (Some [5])
     = Inr \<lparr>size_bm = 1, random_bm = 0, board = [[Some 5]], last_removed_pos = None\<rparr>"
  by (simp add: BoardManager_def init_board_def Random_def sample_lib_def py_getitem_def py_index_def)

theorem BoardManager_fails_iff_witness:
  "BoardManager sample_lib 0 2 None (Some [1, 2, 3]) = Inl ValueError
   \<and> BoardManager sample_lib 0 2 None (Some [1, 2, 3, 4]) \<noteq> Inl ValueError
   \<and> BoardManager sample_lib 0 0 (Some 7) None \<noteq> Inl ValueError"
  using BoardManager_fails_iff [of sample_lib 0 2 None "Some [1, 2, 3]"]
    BoardManager_fails_iff [of sample_lib 0 2 None "Some [1, 2, 3, 4]"]
    BoardManager_fails_iff [of sample_lib 0 0 "Some 7" None]
  by auto

text \<open>
  Claim C10. For \<open>size \<ge> 1\<close> and a preset of exactly \<open>size * size\<close> integers the
  constructor succeeds with a board of that size, and for every \<open>0 \<le> r, c < size\<close> the
  cell at \<open>(r, c)\<close> is in bounds, available, and reads \<open>preset[r * size + c]\<close>, whatever
  integer that is: nothing checks the range. A randomly generated board of that size
  holds only values that \<^verbatim>\<open>randint(1, 9)\<close> returns, so it is within \<open>1..9\<close> as far as
  the library keeps to that range.
\<close>

theorem preset_stored_verbatim:
  assumes "1 \<le> sz" and "int (length pb) = sz * sz"
  shows "(\<exists>b. BoardManager L entropy sz seed (Some pb) = Inr b \<and> size_bm b = sz \<and> wf_board b
            \<and> last_removed_pos b = None \<and>
            (\<forall>r c. 0 \<le> r \<and> r < sz \<and> 0 \<le> c \<and> c < sz \<longrightarrow>
               in_bounds b (r, c) \<and> is_available b (r, c) = Inr True
               \<and> get_value b (r, c) = Inr (Some (pb ! nat (r * sz + c)))))
    \<and> ((\<forall>st. 1 \<le> fst (randint L st 1 9) \<and> fst (randint L st 1 9) \<le> 9) \<longrightarrow>
         (\<exists>b. BoardManager L entropy sz seed None = Inr b \<and> size_bm b = sz \<and> wf_board b \<and>
            (\<forall>r c. 0 \<le> r \<and> r < sz \<and> 0 \<le> c \<and> c < sz \<longrightarrow>
               (\<exists>v. get_value b (r, c) = Inr (Some v) \<and> 1 \<le> v \<and> v \<le> 9))))"
proof (intro conjI impI)
  from assms(2) obtain b where b: "BoardManager L entropy sz seed (Some pb) = Inr b"
    by (simp add: BoardManager_preset)
  from BoardManager_wf [OF b] have wf: "wf_board b" and sz: "size_bm b = sz" by simp_all
  from b assms(2) have l: "last_removed_pos b = None" by (auto simp add: BoardManager_preset)
  have "\<And>r c. 0 \<le> r \<and> r < sz \<and> 0 \<le> c \<and> c < sz \<Longrightarrow>
      in_bounds b (r, c) \<and> is_available b (r, c) = Inr True
      \<and> get_value b (r, c) = Inr (Some (pb ! nat (r * sz + c)))"
  proof -
    fix r c assume rc: "0 \<le> r \<and> r < sz \<and> 0 \<le> c \<and> c < sz"
    with sz have ib: "in_bounds b (r, c)" by (simp add: in_bounds_def)
    note g = preset_cell [OF assms(2) b ib]
    with get_value_wf [OF wf ib] have "cell_at b (r, c) = Some (pb ! nat (r * sz + c))" by simp
    then have "cell_at b (r, c) \<noteq> None" by simp
    with ib wf have "is_available b (r, c) = Inr True" by (simp add: is_available_wf)
    with ib g show "in_bounds b (r, c) \<and> is_available b (r, c) = Inr True
      \<and> get_value b (r, c) = Inr (Some (pb ! nat (r * sz + c)))" by simp
  qed
  with b wf sz l
  show "\<exists>b. BoardManager L entropy sz seed (Some pb) = Inr b \<and> size_bm b = sz \<and> wf_board b
            \<and> last_removed_pos b = None \<and>
            (\<forall>r c. 0 \<le> r \<and> r < sz \<and> 0 \<le> c \<and> c < sz \<longrightarrow>
               in_bounds b (r, c) \<and> is_available b (r, c) = Inr True
               \<and> get_value b (r, c) = Inr (Some (pb ! nat (r * sz + c))))"
    by blast
next
  assume rng: "\<forall>st. 1 \<le> fst (randint L st 1 9) \<and> fst (randint L st 1 9) \<le> 9"
  obtain b where b: "BoardManager L entropy sz seed None = Inr b"
    by (simp add: BoardManager_random)
  from BoardManager_wf [OF b] have wf: "wf_board b" and sz: "size_bm b = sz" by simp_all
  from b have bd: "board b = fst (random_rows L sz (nat sz) (Random L entropy seed) [])"
    by (auto simp add: BoardManager_random)
  have all: "list_all (list_all (\<lambda>v. \<exists>x. v = Some x \<and> (1 \<le> x \<and> x \<le> 9))) (board b)"
    unfolding bd using rng by (intro random_rows_range) simp_all
  have "\<And>r c. 0 \<le> r \<and> r < sz \<and> 0 \<le> c \<and> c < sz \<Longrightarrow>
      \<exists>v. get_value b (r, c) = Inr (Some v) \<and> 1 \<le> v \<and> v \<le> 9"
  proof -
    fix r c assume rc: "0 \<le> r \<and> r < sz \<and> 0 \<le> c \<and> c < sz"
    with sz have ib: "in_bounds b (r, c)" by (simp add: in_bounds_def)
    from cell_at_nth [OF wf ib all] get_value_wf [OF wf ib]
    show "\<exists>v. get_value b (r, c) = Inr (Some v) \<and> 1 \<le> v \<and> v \<le> 9" by auto
  qed
  with b wf sz
  show "\<exists>b. BoardManager L entropy sz seed None = Inr b \<and> size_bm b = sz \<and> wf_board b \<and>
          (\<forall>r c. 0 \<le> r \<and> r < sz \<and> 0 \<le> c \<and> c < sz \<longrightarrow>
             (\<exists>v. get_value b (r, c) = Inr (Some v) \<and> 1 \<le> v \<and> v \<le> 9))"
    by blast
qed

lemma sample_lib_range: "\<forall>st. 1 \<le> fst (randint sample_lib st 1 9) \<and> fst (randint sample_lib st 1 9) \<le> 9"
proof
  fix st :: nat
  have "st mod 9 < 9" by simp
  then show "1 \<le> fst (randint sample_lib st 1 9) \<and> fst (randint sample_lib st 1 9) \<le> 9"
    by (simp add: sample_lib_def)
qed

theorem preset_stored_verbatim_witness:
  "(1::int) \<le> 2 \<and> int (length [0, - 5, 10, 3 :: int]) = 2 * 2
   \<and> (case BoardManager sample_lib 0 2 None (Some [0, - 5, 10, 3]) of
        Inl e \<Rightarrow> False
      | Inr b \<Rightarrow> size_bm b = 2 \<and> get_value b (0, 0) = Inr (Some 0)
          \<and> get_value b (0, 1) = Inr (Some (- 5)) \<and> get_value b (1, 0) = Inr (Some 10)
          \<and> get_value b (1, 1) = Inr (Some 3))
   \<and> (\<forall>st. 1 \<le> fst (randint sample_lib st 1 9) \<and> fst (randint sample_lib st 1 9) \<le> 9)
   \<and> (case BoardManager sample_lib 0 2 None None of
        Inl e \<Rightarrow> False
      | Inr b \<Rightarrow> size_bm b = 2 \<and> (\<exists>v. get_value b (1, 1) = Inr (Some v) \<and> 1 \<le> v \<and> v \<le> 9))"
proof -
  have h: "(1::int) \<le> 2" "int (length [0, - 5, 10, 3 :: int]) = 2 * 2" by simp_all
  note t = preset_stored_verbatim [OF h, of sample_lib 0 None]
  from t obtain b where b: "BoardManager sample_lib 0 2 None (Some [0, - 5, 10, 3]) = Inr b"
    and sz: "size_bm b = 2"
    and v: "\<forall>r c. 0 \<le> r \<and> r < 2 \<and> 0 \<le> c \<and> c < 2 \<longrightarrow>
        get_value b (r, c) = Inr (Some ([0, - 5, 10, 3] ! nat (r * 2 + c)))"
    by blast
  from v [rule_format, of 0 0] have v00: "get_value b (0, 0) = Inr (Some 0)" by simp
  from v [rule_format, of 0 1] have v01: "get_value b (0, 1) = Inr (Some (- 5))" by simp
  from v [rule_format, of 1 0] have v10: "get_value b (1, 0) = Inr (Some 10)" by simp
  from v [rule_format, of 1 1] have v11: "get_value b (1, 1) = Inr (Some 3)" by simp
  from t sample_lib_range obtain b' where b': "BoardManager sample_lib 0 2 None None = Inr b'"
    and sz': "size_bm b' = 2"
    and c: "\<forall>r c. 0 \<le> r \<and> r < 2 \<and> 0 \<le> c \<and> c < 2 \<longrightarrow>
        (\<exists>v. get_value b' (r, c) = Inr (Some v) \<and> 1 \<le> v \<and> v \<le> 9)" by blast
  from c [rule_format, of 1 1] have c11: "\<exists>v. get_value b' (1, 1) = Inr (Some v) \<and> 1 \<le> v \<and> v \<le> 9"
    by simp
  from h b sz v00 v01 v10 v11 sample_lib_range b' sz' c11 show ?thesis by simp
qed

text \<open>
  Claim C7. With the same size and the same seed, and no preset, two constructions give
  the same grid, cell by cell, whatever the operating system's entropy is at either
  construction: the generator is a fresh one seeded with \<open>seed\<close> each time.
\<close>

theorem seeded_grid_deterministic:
  "\<exists>b1 b2. BoardManager L entropy1 sz (Some s) None = Inr b1
     \<and> BoardManager L entropy2 sz (Some s) None = Inr b2
     \<and> board b1 = board b2 \<and> (\<forall>p. get_value b1 p = get_value b2 p)"
  by (simp add: BoardManager_random Random_def get_value_def board_get_def)

theorem seeded_grid_deterministic_witness:
  "map_sum id board (BoardManager sample_lib 11 2 (Some 5) None)
     = map_sum id board (BoardManager sample_lib 12 2 (Some 5) None)
   \<and> map_sum id board (BoardManager sample_lib 11 2 None None)
     \<noteq> map_sum id board (BoardManager sample_lib 12 2 None None)"
proof -
  from seeded_grid_deterministic [of sample_lib 11 2 5 12]
  have "map_sum id board (BoardManager sample_lib 11 2 (Some 5) None)
     = map_sum id board (BoardManager sample_lib 12 2 (Some 5) None)"
    by auto
  moreover have "map_sum id board (BoardManager sample_lib 11 2 None None)
     \<noteq> map_sum id board (BoardManager sample_lib 12 2 None None)"
    by (simp add: BoardManager_def init_board_def Random_def sample_lib_def numeral_2_eq_2)
  ultimately show ?thesis by simp
qed

section \<open>The legal set\<close>


lemma allowed_row_ok:
  "wf_board b \<Longrightarrow> 0 \<le> r0 \<Longrightarrow> r0 < size_bm b \<Longrightarrow> set cs \<subseteq> set (py_range (size_bm b)) \<Longrightarrow>
   allowed_row b r0 cs acc = Inr (acc @ map (Pair r0) (filter (\<lambda>c. cell_at b (r0, c) \<noteq> None) cs))"
proof (induction cs arbitrary: acc)
  case Nil
  then show ?case by simp
next
  case (Cons c cs)
  from Cons.prems have "in_bounds b (r0, c)" by (simp add: in_bounds_def set_py_range)
  with Cons.prems have "board_get b r0 c = Inr (cell_at b (r0, c))" by (simp add: board_get_wf)
  with Cons show ?case by simp
qed

lemma all_available_cols_ok:
  "wf_board b \<Longrightarrow> 0 \<le> r \<Longrightarrow> r < size_bm b \<Longrightarrow> set cs \<subseteq> set (py_range (size_bm b)) \<Longrightarrow>
   all_available_cols b r cs acc = Inr (acc @ map (Pair r) (filter (\<lambda>c. cell_at b (r, c) \<noteq> None) cs))"
proof (induction cs arbitrary: acc)
  case Nil
  then show ?case by simp
next
  case (Cons c cs)
  from Cons.prems have "in_bounds b (r, c)" by (simp add: in_bounds_def set_py_range)
  with Cons.prems have "board_get b r c = Inr (cell_at b (r, c))" by (simp add: board_get_wf)
  with Cons show ?case by simp
qed

lemma allowed_col_ok:
  "wf_board b \<Longrightarrow> 0 \<le> c0 \<Longrightarrow> c0 < size_bm b \<Longrightarrow> set rs \<subseteq> set (py_range (size_bm b)) \<Longrightarrow>
   allowed_col b r0 c0 rs acc
     = Inr (acc @ map (\<lambda>r. (r, c0)) (filter (\<lambda>r. r \<noteq> r0 \<and> cell_at b (r, c0) \<noteq> None) rs))"
proof (induction rs arbitrary: acc)
  case Nil
  then show ?case by simp
next
  case (Cons r rs)
  from Cons.prems have "in_bounds b (r, c0)" by (simp add: in_bounds_def set_py_range)
  with Cons.prems have "board_get b r c0 = Inr (cell_at b (r, c0))" by (simp add: board_get_wf)
  with Cons show ?case by simp
qed

lemma all_available_rows_ok:
  "wf_board b \<Longrightarrow> set rs \<subseteq> set (py_range (size_bm b)) \<Longrightarrow>
   all_available_rows b rs acc = Inr (acc @ concat (map (row_cells b) rs))"
proof (induction rs arbitrary: acc)
  case Nil
  then show ?case by simp
next
  case (Cons r rs)
  from Cons.prems have "0 \<le> r" "r < size_bm b" by (simp_all add: set_py_range)
  with Cons.prems(1) have "all_available_cols b r (py_range (size_bm b)) acc = Inr (acc @ row_cells b r)"
    by (simp add: all_available_cols_ok row_cells_def)
  with Cons show ?case by simp
qed

lemma get_all_available_positions_wf:
  "wf_board b \<Longrightarrow> get_all_available_positions b = Inr (all_cells b)"
  by (simp add: get_all_available_positions_def all_available_rows_ok all_cells_def)

lemma get_allowed_positions_wf:
  "wf_board b \<Longrightarrow> in_bounds b lp \<Longrightarrow> get_allowed_positions b lp = Inr (legal_set b (Some lp))"
  by (cases lp)
    (simp add: get_allowed_positions_def in_bounds_def allowed_row_ok allowed_col_ok
      legal_set_def row_cells_def column_cells_def)

lemma allowed_for_wf:
  "wf_board b \<Longrightarrow> (case last_pos of None \<Rightarrow> True | Some lp \<Rightarrow> in_bounds b lp) \<Longrightarrow>
   allowed_for b last_pos = Inr (legal_set b last_pos)"
  by (cases last_pos)
    (simp_all add: allowed_for_def get_all_available_positions_wf get_allowed_positions_wf legal_set_def)

lemma distinct_py_range: "distinct (py_range n)"
  by (simp add: py_range_def distinct_map)

lemma set_row_cells: "set (row_cells b r0) = {p. fst p = r0 \<and> 0 \<le> snd p \<and> snd p < size_bm b \<and> cell_at b p \<noteq> None}"
  by (auto simp add: row_cells_def set_py_range)

lemma set_column_cells:
  "set (column_cells b r0 c0)
     = {p. snd p = c0 \<and> fst p \<noteq> r0 \<and> 0 \<le> fst p \<and> fst p < size_bm b \<and> cell_at b p \<noteq> None}"
  by (auto simp add: column_cells_def set_py_range)

lemma distinct_row_cells: "distinct (row_cells b r0)"
  by (simp add: row_cells_def distinct_map distinct_py_range inj_on_def)

lemma distinct_column_cells: "distinct (column_cells b r0 c0)"
  by (simp add: column_cells_def distinct_map distinct_py_range inj_on_def)

lemma set_all_cells: "set (all_cells b) = {p. available b p}"
  by (auto simp add: all_cells_def set_row_cells set_py_range available_def in_bounds_def)

lemma distinct_rows_concat:
  "distinct rs \<Longrightarrow> distinct (concat (map (row_cells b) rs))"
proof (induction rs)
  case Nil
  then show ?case by simp
next
  case (Cons r rs)
  then have "set (row_cells b r) \<inter> (\<Union>x\<in>set rs. set (row_cells b x)) = {}"
    by (auto simp add: set_row_cells)
  with Cons show ?case by (simp add: distinct_row_cells)
qed

lemma distinct_all_cells: "distinct (all_cells b)"
  by (simp add: all_cells_def distinct_rows_concat distinct_py_range)

lemma distinct_legal_set: "distinct (legal_set b last_pos)"
  by (cases last_pos)
    (auto simp add: legal_set_def distinct_all_cells distinct_row_cells distinct_column_cells
      set_row_cells set_column_cells)

lemma set_legal_set:
  "wf_board b \<Longrightarrow> (case last_pos of None \<Rightarrow> True | Some lp \<Rightarrow> in_bounds b lp) \<Longrightarrow>
   set (legal_set b last_pos)
     = {p. available b p \<and> (case last_pos of None \<Rightarrow> True | Some lp \<Rightarrow> fst p = fst lp \<or> snd p = snd lp)}"
  by (cases last_pos)
    (auto simp add: legal_set_def set_all_cells set_row_cells set_column_cells available_def
      in_bounds_def)

lemma sorted_py_range: "sorted_wrt (<) (py_range n)"
  by (simp add: py_range_def sorted_wrt_map)

text \<open>
  Claim C1. On a well-formed board, for an in-bounds \<open>last_pos\<close> the legal set is the
  available cells of its row by ascending column followed by the available cells of its
  column by ascending row without the intersection row; for an absent \<open>last_pos\<close> it is
  all available cells row by row. It has no duplicates and holds exactly the available
  positions that share the row or the column of \<open>last_pos\<close> (all of them when
  \<open>last_pos\<close> is absent).
\<close>

theorem legal_set_correct:
  assumes "wf_board b" and "case last_pos of None \<Rightarrow> True | Some lp \<Rightarrow> in_bounds b lp"
  shows "allowed_for b last_pos
           = Inr (case last_pos of
                    None \<Rightarrow> concat (map (\<lambda>r. map (Pair r)
                               (filter (\<lambda>c. available b (r, c)) (py_range (size_bm b))))
                               (py_range (size_bm b)))
                  | Some (r0, c0) \<Rightarrow>
                      map (Pair r0) (filter (\<lambda>c. available b (r0, c)) (py_range (size_bm b)))
                      @ map (\<lambda>r. (r, c0))
                          (filter (\<lambda>r. r \<noteq> r0 \<and> available b (r, c0)) (py_range (size_bm b))))
    \<and> allowed_for b last_pos = Inr (legal_set b last_pos)
    \<and> distinct (legal_set b last_pos)
    \<and> set (legal_set b last_pos)
        = {p. available b p \<and>
              (case last_pos of None \<Rightarrow> True | Some lp \<Rightarrow> fst p = fst lp \<or> snd p = snd lp)}
    \<and> sorted_wrt (<) (py_range (size_bm b))"
proof -
  have av: "\<And>r. r \<in> set (py_range (size_bm b)) \<Longrightarrow>
      filter (\<lambda>c. available b (r, c)) (py_range (size_bm b))
        = filter (\<lambda>c. cell_at b (r, c) \<noteq> None) (py_range (size_bm b))"
    by (rule filter_cong) (auto simp add: available_def in_bounds_def set_py_range)
  have "legal_set b last_pos
      = (case last_pos of
           None \<Rightarrow> concat (map (\<lambda>r. map (Pair r)
                      (filter (\<lambda>c. available b (r, c)) (py_range (size_bm b))))
                      (py_range (size_bm b)))
         | Some (r0, c0) \<Rightarrow>
             map (Pair r0) (filter (\<lambda>c. available b (r0, c)) (py_range (size_bm b)))
             @ map (\<lambda>r. (r, c0))
                 (filter (\<lambda>r. r \<noteq> r0 \<and> available b (r, c0)) (py_range (size_bm b))))"
  proof (cases last_pos)
    case None
    have m: "map (row_cells b) (py_range (size_bm b))
        = map (\<lambda>r. map (Pair r) (filter (\<lambda>c. available b (r, c)) (py_range (size_bm b))))
            (py_range (size_bm b))"
      by (rule map_cong) (simp_all add: row_cells_def av)
    show ?thesis unfolding None legal_set_def all_cells_def option.case m ..
  next
    case (Some lp)
    obtain r0 c0 where lp: "lp = (r0, c0)" by (cases lp)
    with Some assms(2) have ib: "0 \<le> r0" "r0 < size_bm b" "0 \<le> c0" "c0 < size_bm b"
      by (simp_all add: in_bounds_def)
    then have "r0 \<in> set (py_range (size_bm b))" by (simp add: set_py_range)
    from av [OF this] have row: "row_cells b r0
        = map (Pair r0) (filter (\<lambda>c. available b (r0, c)) (py_range (size_bm b)))"
      by (simp add: row_cells_def)
    have "filter (\<lambda>r. r \<noteq> r0 \<and> available b (r, c0)) (py_range (size_bm b))
        = filter (\<lambda>r. r \<noteq> r0 \<and> cell_at b (r, c0) \<noteq> None) (py_range (size_bm b))"
      using ib by (intro filter_cong) (auto simp add: available_def in_bounds_def set_py_range)
    then have "column_cells b r0 c0
        = map (\<lambda>r. (r, c0)) (filter (\<lambda>r. r \<noteq> r0 \<and> available b (r, c0)) (py_range (size_bm b)))"
      by (simp add: column_cells_def)
    with row Some lp show ?thesis by (simp add: legal_set_def)
  qed
  with allowed_for_wf [OF assms] distinct_legal_set [of b last_pos] set_legal_set [OF assms]
    sorted_py_range [of "size_bm b"]
  show ?thesis by simp
qed

lemma wf_board_3x3: "wf_board board_3x3"
  by (simp add: board_3x3_def wf_board_def)

lemma wf_board_2x2: "wf_board board_2x2"
  by (simp add: board_2x2_def wf_board_def)

theorem legal_set_correct_witness:
  "wf_board board_3x3 \<and> in_bounds board_3x3 (1, 1)
   \<and> allowed_for board_3x3 (Some (1, 1)) = Inr [(1, 0), (1, 1), (1, 2), (0, 1), (2, 1)]
   \<and> wf_board board_2x2
   \<and> allowed_for board_2x2 None = Inr [(0, 0), (0, 1), (1, 1)]"
proof -
  have ib: "case Some (1, 1) of None \<Rightarrow> True | Some lp \<Rightarrow> in_bounds board_3x3 lp"
    by (simp add: in_bounds_def board_3x3_def)
  have n: "case None of None \<Rightarrow> True | Some lp \<Rightarrow> in_bounds board_2x2 lp" by simp
  have r3: "py_range (size_bm board_3x3) = [0, 1, 2]" by (simp add: board_3x3_def py_range_def upt_rec)
  have r2: "py_range (size_bm board_2x2) = [0, 1]" by (simp add: board_2x2_def py_range_def upt_rec)
  have a3: "\<And>p. available board_3x3 p = in_bounds board_3x3 p"
    by (auto simp add: available_def)
      (auto simp add: in_bounds_def cell_at_def board_3x3_def nth_Cons split: nat.splits)
  from legal_set_correct [OF wf_board_3x3 ib]
  have "allowed_for board_3x3 (Some (1, 1)) = Inr [(1, 0), (1, 1), (1, 2), (0, 1), (2, 1)]"
    by (simp add: r3 a3) (simp add: in_bounds_def board_3x3_def)
  moreover from legal_set_correct [OF wf_board_2x2 n]
  have "allowed_for board_2x2 None = Inr [(0, 0), (0, 1), (1, 1)]"
    by (simp add: r2) (simp add: available_def in_bounds_def cell_at_def board_2x2_def)
  ultimately show ?thesis using wf_board_3x3 wf_board_2x2 ib by simp
qed

section \<open>Strategies\<close>


lemma first_max_single: "first_max key [p] p"
  unfolding first_max_def by (rule exI [of _ "[]"], rule exI [of _ "[]"]) simp

lemma first_max_step:
  assumes "first_max key xs best"
  shows "first_max key (xs @ [p]) (if key best < key p then p else best)"
proof -
  from assms obtain pre post where xs: "xs = pre @ best # post"
    and pre: "list_all (\<lambda>q. key q < key best) pre"
    and post: "list_all (\<lambda>q. key q \<le> key best) post"
    unfolding first_max_def by blast
  show ?thesis
  proof (cases "key best < key p")
    case True
    from pre True have "list_all (\<lambda>q. key q < key p) pre"
      by (auto simp add: list_all_iff)
    moreover from post True have "list_all (\<lambda>q. key q < key p) post"
      by (auto simp add: list_all_iff)
    ultimately have "list_all (\<lambda>q. key q < key p) xs" using True xs by simp
    then have "xs @ [p] = xs @ p # [] \<and> list_all (\<lambda>q. key q < key p) xs
        \<and> list_all (\<lambda>q. key q \<le> key p) []" by simp
    then have "first_max key (xs @ [p]) p" unfolding first_max_def by blast
    with True show ?thesis by simp
  next
    case False
    then have "key p \<le> key best" by simp
    with post have "list_all (\<lambda>q. key q \<le> key best) (post @ [p])" by simp
    with xs pre have "xs @ [p] = pre @ best # (post @ [p]) \<and> list_all (\<lambda>q. key q < key best) pre
        \<and> list_all (\<lambda>q. key q \<le> key best) (post @ [p])" by simp
    then have "first_max key (xs @ [p]) best" unfolding first_max_def by blast
    with False show ?thesis by simp
  qed
qed

lemma running_best_first_max:
  "first_max key xs best \<Longrightarrow> first_max key (xs @ ps) (running_best key ps best)"
proof (induction ps arbitrary: xs best)
  case Nil
  then show ?case by simp
next
  case (Cons p ps)
  from Cons.IH [OF first_max_step [OF Cons.prems, of p]] show ?case by simp
qed

lemma best_by_key_loop_pure:
  "(\<And>p. p \<in> set cs \<Longrightarrow> key_fn p s = (Inr (key p), s)) \<Longrightarrow>
   best_by_key_loop key_fn True cs (Some best) (Some (key best)) s
     = (Inr (Some (running_best key cs best)), s)"
proof (induction cs arbitrary: best)
  case Nil
  then show ?case by simp
next
  case (Cons c cs)
  from Cons.prems have c: "key_fn c s = (Inr (key c), s)" by simp
  from Cons.prems have rest: "\<And>p. p \<in> set cs \<Longrightarrow> key_fn p s = (Inr (key p), s)" by simp
  show ?case using c Cons.IH [OF rest] by simp
qed

lemma best_by_key_pure:
  assumes "cs \<noteq> []" and "\<And>p. p \<in> set cs \<Longrightarrow> key_fn p s = (Inr (key p), s)"
  shows "\<exists>p. best_by_key cs key_fn True s = (Inr (Some p), s) \<and> p \<in> set cs \<and> first_max key cs p"
proof -
  from assms(1) obtain c rest where cs: "cs = c # rest" by (cases cs) auto
  with assms(2) have c: "key_fn c s = (Inr (key c), s)"
    and r: "\<And>p. p \<in> set rest \<Longrightarrow> key_fn p s = (Inr (key p), s)" by simp_all
  have "best_by_key cs key_fn True s = (Inr (Some (running_best key rest c)), s)"
    using c best_by_key_loop_pure [of rest key_fn s key c, OF r]
    by (simp add: best_by_key_def cs)
  moreover from running_best_first_max [OF first_max_single, of key c rest]
  have fm: "first_max key cs (running_best key rest c)" by (simp add: cs)
  moreover from fm have "running_best key rest c \<in> set cs" unfolding first_max_def by auto
  ultimately show ?thesis by blast
qed

lemma or0_value: "or0 v = (case v of None \<Rightarrow> 0 | Some x \<Rightarrow> x)"
  by (simp add: or0_def split: option.splits)

lemma legal_available:
  "wf_board b \<Longrightarrow> (case last_pos of None \<Rightarrow> True | Some lp \<Rightarrow> in_bounds b lp) \<Longrightarrow>
   p \<in> set (legal_set b last_pos) \<Longrightarrow> available b p"
  by (simp add: set_legal_set)

lemma board_set_restore:
  "wf_board b \<Longrightarrow> in_bounds b (r, c) \<Longrightarrow>
   board_set (removed b (r, c)) r c (cell_at b (r, c)) = Inr b"
proof -
  assume wf: "wf_board b" and ib: "in_bounds b (r, c)"
  have ib': "in_bounds (removed b (r, c)) (r, c)" using ib by simp
  from wf ib have "nat r < length (board b)" by (simp add: wf_board_def in_bounds_def)
  then show ?thesis
    using board_set_wf [OF wf_removed [OF wf] ib']
    by (simp add: removed_def cell_at_def)
qed

lemma values_or0_wf:
  "wf_board b \<Longrightarrow> \<forall>p\<in>set ps. in_bounds b p \<Longrightarrow> values_or0 b ps = Inr (map (value_of b) ps)"
  by (induction ps) (simp_all add: get_value_wf or0_value value_of_def)

lemma py_min_Min: "xs \<noteq> [] \<Longrightarrow> py_min xs = Inr (Min (set xs))"
  by (cases xs) (simp_all add: py_min_def Min.set_eq_fold [symmetric])

lemma count_top_hits_wf:
  "wf_board b \<Longrightarrow> \<forall>p\<in>set ps. in_bounds b p \<Longrightarrow>
   count_top_hits b gm ps cg th
     = Inr (if filter (\<lambda>p. value_of b p = gm) ps \<noteq> [] then 1 else cg,
            th + int (length (filter (\<lambda>p. value_of b p = gm) ps)))"
  by (induction ps arbitrary: cg th) (simp_all add: get_value_wf or0_value value_of_def)

lemma replies_wf:
  "wf_board b \<Longrightarrow> in_bounds b p \<Longrightarrow>
   get_allowed_positions (removed b p) p = Inr (replies b p) \<and>
   (\<forall>q\<in>set (replies b p). in_bounds (removed b p) q)"
proof -
  assume wf: "wf_board b" and ib: "in_bounds b p"
  have wf': "wf_board (removed b p)" by (rule wf_removed [OF wf])
  have ib': "case Some p of None \<Rightarrow> True | Some lp \<Rightarrow> in_bounds (removed b p) lp" using ib by simp
  from set_legal_set [OF wf' ib'] get_allowed_positions_wf [OF wf', of p] ib
  show ?thesis by (simp add: replies_def available_def)
qed

lemma metric_greedy_wf:
  "wf_board b \<Longrightarrow> available b p \<Longrightarrow> metric_greedy p b = (Inr (value_of b p), b)"
  by (simp add: metric_greedy_def available_def get_value_wf or0_value value_of_def)

lemma metric_future_min_wf:
  assumes wf: "wf_board b" and av: "available b p"
  shows "metric_future_min p b = (Inr (key_future_min b p), b)"
proof -
  obtain r c where p: "p = (r, c)" by (cases p)
  from av have ib: "in_bounds b p" by (simp add: available_def)
  have wf': "wf_board (removed b p)" by (rule wf_removed [OF wf])
  from replies_wf [OF wf ib] have ga: "get_allowed_positions (removed b p) p = Inr (replies b p)"
    and rin: "\<forall>q\<in>set (replies b p). in_bounds (removed b p) q" by simp_all
  note vals = values_or0_wf [OF wf' rin]
  have mn: "replies b p \<noteq> [] \<Longrightarrow>
      py_min (map (value_of (removed b p)) (replies b p))
        = Inr (Min (set (map (value_of (removed b p)) (replies b p))))"
    by (rule py_min_Min) simp
  show ?thesis
    using get_value_wf [OF wf ib] board_get_wf [OF wf ib [unfolded p]]
      board_set_wf [OF wf ib [unfolded p]] board_set_restore [OF wf ib [unfolded p]]
      ga vals mn
    by (simp add: metric_future_min_def p key_future_min_def or0_value value_of_def
        removed_def [symmetric, of b "(r, c)", simplified] Let_def)
qed

lemma metric_opponent_options_wf:
  assumes wf: "wf_board b" and av: "available b p"
  shows "metric_opponent_options p b = (Inr (key_opponent_options b p), b)"
proof -
  obtain r c where p: "p = (r, c)" by (cases p)
  from av have ib: "in_bounds b p" by (simp add: available_def)
  from replies_wf [OF wf ib] have ga: "get_allowed_positions (removed b p) p = Inr (replies b p)"
    by simp
  show ?thesis
    using get_value_wf [OF wf ib] board_get_wf [OF wf ib [unfolded p]]
      board_set_wf [OF wf ib [unfolded p]] board_set_restore [OF wf ib [unfolded p]] ga
    by (simp add: metric_opponent_options_def p key_opponent_options_def or0_value value_of_def
        removed_def [symmetric, of b "(r, c)", simplified] Let_def)
qed

lemma metric_high_value_wf:
  assumes wf: "wf_board b" and av: "available b p"
  shows "metric_high_value gm p b = (Inr (key_high_value b gm p), b)"
proof -
  obtain r c where p: "p = (r, c)" by (cases p)
  from av have ib: "in_bounds b p" by (simp add: available_def)
  have wf': "wf_board (removed b p)" by (rule wf_removed [OF wf])
  from replies_wf [OF wf ib] have ga: "get_allowed_positions (removed b p) p = Inr (replies b p)"
    and rin: "\<forall>q\<in>set (replies b p). in_bounds (removed b p) q" by simp_all
  note hits = count_top_hits_wf [OF wf' rin, of gm 0 0]
  show ?thesis
    using get_value_wf [OF wf ib] board_get_wf [OF wf ib [unfolded p]]
      board_set_wf [OF wf ib [unfolded p]] board_set_restore [OF wf ib [unfolded p]] ga hits
    by (simp add: metric_high_value_def p key_high_value_def global_max_hits_def or0_value
        value_of_def removed_def [symmetric, of b "(r, c)", simplified] Let_def)
qed

lemma max_remaining_cols_wf:
  "wf_board b \<Longrightarrow> 0 \<le> r \<Longrightarrow> r < size_bm b \<Longrightarrow> set cs \<subseteq> set (py_range (size_bm b)) \<Longrightarrow>
   max_remaining_cols b r cs m
     = Inr (fold max (map (value_of b) (map (Pair r) (filter (\<lambda>c. cell_at b (r, c) \<noteq> None) cs))) m)"
proof (induction cs arbitrary: m)
  case Nil
  then show ?case by simp
next
  case (Cons c cs)
  from Cons.prems have "in_bounds b (r, c)" by (simp add: in_bounds_def set_py_range)
  with Cons.prems have g: "board_get b r c = Inr (cell_at b (r, c))" by (simp add: board_get_wf)
  from Cons.prems have rest: "set cs \<subseteq> set (py_range (size_bm b))" by simp
  note ih = Cons.IH [OF Cons.prems(1-3) rest]
  show ?case
  proof (cases "cell_at b (r, c)")
    case None
    with g ih show ?thesis by simp
  next
    case (Some x)
    have "(if m < x then x else m) = max x m" by (simp add: max_def)
    with Some g ih show ?thesis by (simp add: value_of_def)
  qed
qed

lemma max_remaining_rows_wf:
  "wf_board b \<Longrightarrow> set rs \<subseteq> set (py_range (size_bm b)) \<Longrightarrow>
   max_remaining_rows b rs m = Inr (fold max (map (value_of b) (concat (map (row_cells b) rs))) m)"
proof (induction rs arbitrary: m)
  case Nil
  then show ?case by simp
next
  case (Cons r rs)
  from Cons.prems have "0 \<le> r" "r < size_bm b" by (simp_all add: set_py_range)
  with Cons.prems(1)
  have "max_remaining_cols b r (py_range (size_bm b)) m
      = Inr (fold max (map (value_of b) (row_cells b r)) m)"
    by (simp add: max_remaining_cols_wf row_cells_def)
  with Cons show ?case by simp
qed

lemma max_remaining_value_wf:
  "wf_board b \<Longrightarrow>
   max_remaining_value b = Inr (Max (insert 0 (value_of b ` set (all_cells b))))"
proof -
  assume wf: "wf_board b"
  have "fold max (map (value_of b) (all_cells b)) 0 = Max (set (0 # map (value_of b) (all_cells b)))"
    by (rule Max.set_eq_fold [symmetric])
  with wf show ?thesis
    by (simp add: max_remaining_value_def max_remaining_rows_wf all_cells_def)
qed

lemma strategy_greedy_wf:
  assumes wf: "wf_board b" and lp: "case last_pos of None \<Rightarrow> True | Some lp \<Rightarrow> in_bounds b lp"
    and ne: "legal_set b last_pos \<noteq> []"
  shows "\<exists>p. strategy_greedy_maximize b last_pos = (Inr (Some p), b)
           \<and> p \<in> set (legal_set b last_pos) \<and> first_max (value_of b) (legal_set b last_pos) p"
proof -
  have "\<And>p. p \<in> set (legal_set b last_pos) \<Longrightarrow> metric_greedy p b = (Inr (value_of b p), b)"
    by (rule metric_greedy_wf [OF wf legal_available [OF wf lp]])
  from best_by_key_pure [where key_fn = "metric_greedy" and key = "value_of b", OF ne this] allowed_for_wf [OF wf lp] ne
  show ?thesis by (simp add: strategy_greedy_maximize_def)
qed

lemma strategy_future_min_wf:
  assumes wf: "wf_board b" and lp: "case last_pos of None \<Rightarrow> True | Some lp \<Rightarrow> in_bounds b lp"
    and ne: "legal_set b last_pos \<noteq> []"
  shows "\<exists>p. strategy_maximize_future_min b last_pos = (Inr (Some p), b)
           \<and> p \<in> set (legal_set b last_pos) \<and> first_max (key_future_min b) (legal_set b last_pos) p"
proof -
  have "\<And>p. p \<in> set (legal_set b last_pos) \<Longrightarrow> metric_future_min p b = (Inr (key_future_min b p), b)"
    by (rule metric_future_min_wf [OF wf legal_available [OF wf lp]])
  from best_by_key_pure [where key_fn = "metric_future_min" and key = "key_future_min b", OF ne this] allowed_for_wf [OF wf lp] ne
  show ?thesis by (simp add: strategy_maximize_future_min_def)
qed

lemma strategy_opponent_options_wf:
  assumes wf: "wf_board b" and lp: "case last_pos of None \<Rightarrow> True | Some lp \<Rightarrow> in_bounds b lp"
    and ne: "legal_set b last_pos \<noteq> []"
  shows "\<exists>p. strategy_minimize_opponent_options b last_pos = (Inr (Some p), b)
           \<and> p \<in> set (legal_set b last_pos)
           \<and> first_max (key_opponent_options b) (legal_set b last_pos) p"
proof -
  have "\<And>p. p \<in> set (legal_set b last_pos) \<Longrightarrow>
      metric_opponent_options p b = (Inr (key_opponent_options b p), b)"
    by (rule metric_opponent_options_wf [OF wf legal_available [OF wf lp]])
  from best_by_key_pure [where key_fn = "metric_opponent_options" and key = "key_opponent_options b", OF ne this] allowed_for_wf [OF wf lp] ne
  show ?thesis by (simp add: strategy_minimize_opponent_options_def)
qed

lemma strategy_high_value_wf:
  assumes wf: "wf_board b" and lp: "case last_pos of None \<Rightarrow> True | Some lp \<Rightarrow> in_bounds b lp"
    and ne: "legal_set b last_pos \<noteq> []"
  shows "\<exists>p. strategy_high_value_preservation b last_pos = (Inr (Some p), b)
           \<and> p \<in> set (legal_set b last_pos)
           \<and> first_max (key_high_value b (Max (insert 0 (value_of b ` set (all_cells b)))))
                 (legal_set b last_pos) p"
proof -
  let ?gm = "Max (insert 0 (value_of b ` set (all_cells b)))"
  have "\<And>p. p \<in> set (legal_set b last_pos) \<Longrightarrow>
      metric_high_value ?gm p b = (Inr (key_high_value b ?gm p), b)"
    by (rule metric_high_value_wf [OF wf legal_available [OF wf lp]])
  from best_by_key_pure [where key_fn = "metric_high_value ?gm" and key = "key_high_value b ?gm", OF ne this] allowed_for_wf [OF wf lp] ne max_remaining_value_wf [OF wf]
  show ?thesis by (simp add: strategy_high_value_preservation_def)
qed

section \<open>What the strategies choose\<close>


lemmas strategy_defs = allowed_for_def best_by_key_def metric_greedy_def metric_future_min_def
  metric_opponent_options_def metric_high_value_def strategy_greedy_maximize_def
  strategy_maximize_future_min_def strategy_minimize_opponent_options_def
  strategy_high_value_preservation_def py_min_def

lemma range3: "py_range 3 = [0, 1, 2]"
  by (simp add: py_range_def upt_rec)

lemma opened_allowed: "allowed_for board_opened (Some (0, 0)) = Inr [(0, 1), (0, 2), (1, 0), (2, 0)]"
  by (simp add: board_opened_def eval_defs strategy_defs range3)

lemma opened_greedy:
  "strategy_greedy_maximize board_opened (Some (0, 0)) = (Inr (Some (2, 0)), board_opened)"
  by (simp add: board_opened_def eval_defs strategy_defs range3)

lemma opened_future_min:
  "strategy_maximize_future_min board_opened (Some (0, 0)) = (Inr (Some (2, 0)), board_opened)"
  by (simp add: board_opened_def eval_defs strategy_defs range3)

lemma opened_opponent_options:
  "strategy_minimize_opponent_options board_opened (Some (0, 0)) = (Inr (Some (2, 0)), board_opened)"
  by (simp add: board_opened_def eval_defs strategy_defs range3)

lemma opened_high_value:
  "strategy_high_value_preservation board_opened (Some (0, 0)) = (Inr (Some (1, 0)), board_opened)"
  by (simp add: board_opened_def eval_defs strategy_defs range3)

lemma wf_board_opened: "wf_board board_opened"
  by (simp add: board_opened_def wf_board_def)

lemma opened_in_bounds: "case Some (0, 0) of None \<Rightarrow> True | Some lp \<Rightarrow> in_bounds board_opened lp"
  by (simp add: in_bounds_def board_opened_def)

lemma allowed_values:
  assumes wf: "wf_board b" and lp: "case last_pos of None \<Rightarrow> True | Some lp \<Rightarrow> in_bounds b lp"
    and al: "allowed_for b last_pos = Inr allowed"
  shows "allowed = legal_set b last_pos"
    and "list_all (\<lambda>q. get_value b q = Inr (Some (value_of b q))) allowed"
proof -
  from al allowed_for_wf [OF wf lp] show eq: "allowed = legal_set b last_pos" by simp
  have "\<And>q. q \<in> set allowed \<Longrightarrow> get_value b q = Inr (Some (value_of b q))"
  proof -
    fix q assume "q \<in> set allowed"
    with eq legal_available [OF wf lp] have "available b q" by simp
    with wf show "get_value b q = Inr (Some (value_of b q))"
      by (auto simp add: available_def get_value_wf value_of_def)
  qed
  then show "list_all (\<lambda>q. get_value b q = Inr (Some (value_of b q))) allowed"
    by (simp add: list_all_iff)
qed

lemma preset_1_to_9:
  "BoardManager L entropy 3 seed (Some [1, 2, 3, 4, 5, 6, 7, 8, 9])
     = Inr \<lparr>size_bm = 3, random_bm = Random L entropy seed,
            board = [[Some 1, Some 2, Some 3], [Some 4, Some 5, Some 6], [Some 7, Some 8, Some 9]],
            last_removed_pos = None\<rparr>"
  by (simp add: BoardManager_def init_board_def py_getitem_def py_index_def numeral_3_eq_3)

lemma greedy_example:
  "\<exists>b0 b1. BoardManager L entropy 3 seed (Some [1, 2, 3, 4, 5, 6, 7, 8, 9]) = Inr b0
      \<and> remove_and_get b0 (0, 0) = (Inr 1, b1)
      \<and> allowed_for b1 (Some (0, 0)) = Inr [(0, 1), (0, 2), (1, 0), (2, 0)]
      \<and> strategy_greedy_maximize b1 (Some (0, 0)) = (Inr (Some (2, 0)), b1)
      \<and> get_value b1 (2, 0) = Inr (Some 7)"
  by (simp add: preset_1_to_9 eval_defs strategy_defs range3)

text \<open>
  Claim C6. On a well-formed board, with \<open>last_pos\<close> absent or in bounds and a
  non-empty legal set, \<^verbatim>\<open>strategy_greedy_maximize\<close> returns the first legal candidate
  whose cell value is maximal (the key of each candidate is the value \<^verbatim>\<open>get_value\<close>
  reads), and leaves the board as it was. On the 3 by 3 board of the preset
  \<open>1, \<dots>, 9\<close>, after the opening move at \<open>(0, 0)\<close> the legal set is
  \<open>(0,1), (0,2), (1,0), (2,0)\<close> and the greedy choice is \<open>(2, 0)\<close>, of value \<open>7\<close>.
\<close>

theorem greedy_first_maximum:
  assumes "wf_board b" and "case last_pos of None \<Rightarrow> True | Some lp \<Rightarrow> in_bounds b lp"
    and "allowed_for b last_pos = Inr allowed" and "allowed \<noteq> []"
  shows "(\<exists>p. strategy_greedy_maximize b last_pos = (Inr (Some p), b) \<and> p \<in> set allowed
            \<and> first_max (value_of b) allowed p)
    \<and> list_all (\<lambda>q. get_value b q = Inr (Some (value_of b q))) allowed
    \<and> (\<exists>b0 b1. BoardManager L entropy 3 seed (Some [1, 2, 3, 4, 5, 6, 7, 8, 9]) = Inr b0
          \<and> remove_and_get b0 (0, 0) = (Inr 1, b1)
          \<and> allowed_for b1 (Some (0, 0)) = Inr [(0, 1), (0, 2), (1, 0), (2, 0)]
          \<and> strategy_greedy_maximize b1 (Some (0, 0)) = (Inr (Some (2, 0)), b1)
          \<and> get_value b1 (2, 0) = Inr (Some 7))"
proof -
  note a = allowed_values [OF assms(1-3)]
  from assms(4) a(1) have ne: "legal_set b last_pos \<noteq> []" by simp
  from strategy_greedy_wf [OF assms(1,2) ne] a(1)
  have "\<exists>p. strategy_greedy_maximize b last_pos = (Inr (Some p), b) \<and> p \<in> set allowed
            \<and> first_max (value_of b) allowed p" by simp
  with a(2) greedy_example [of L entropy seed] show ?thesis by (intro conjI)
qed

theorem greedy_first_maximum_witness:
  "wf_board board_opened
   \<and> allowed_for board_opened (Some (0, 0)) = Inr [(0, 1), (0, 2), (1, 0), (2, 0)]
   \<and> strategy_greedy_maximize board_opened (Some (0, 0)) = (Inr (Some (2, 0)), board_opened)
   \<and> first_max (value_of board_opened) [(0, 1), (0, 2), (1, 0), (2, 0)] (2, 0)"
proof -
  have ne: "[(0, 1), (0, 2), (1, 0), (2, 0)] \<noteq> ([] :: position list)" by simp
  note t = greedy_first_maximum [OF wf_board_opened opened_in_bounds opened_allowed ne,
      where L = sample_lib and entropy = 0 and seed = None]
  from t obtain p where "strategy_greedy_maximize board_opened (Some (0, 0)) = (Inr (Some p), board_opened)"
    and fm: "first_max (value_of board_opened) [(0, 1), (0, 2), (1, 0), (2, 0)] p" by blast
  then have "p = (2, 0)" by (simp add: opened_greedy)
  with fm have "first_max (value_of board_opened) [(0, 1), (0, 2), (1, 0), (2, 0)] (2, 0)" by simp
  with wf_board_opened opened_allowed opened_greedy show ?thesis by simp
qed

text \<open>
  Claim C4. Under the same conditions \<^verbatim>\<open>strategy_maximize_future_min\<close> returns the first
  legal candidate whose key is lexicographically maximal, the key being the pair of
  the candidate's value minus the least value among the opponent's replies once the
  candidate is taken (\<open>0\<close> when there is no reply), and the candidate's value.
\<close>

theorem future_min_first_maximum:
  assumes "wf_board b" and "case last_pos of None \<Rightarrow> True | Some lp \<Rightarrow> in_bounds b lp"
    and "allowed_for b last_pos = Inr allowed" and "allowed \<noteq> []"
  shows "(\<exists>p. strategy_maximize_future_min b last_pos = (Inr (Some p), b) \<and> p \<in> set allowed
            \<and> first_max (key_future_min b) allowed p)
    \<and> list_all (\<lambda>q. get_value b q = Inr (Some (value_of b q))
                    \<and> get_allowed_positions (removed b q) q = Inr (replies b q)) allowed"
proof -
  note a = allowed_values [OF assms(1-3)]
  from assms(4) a(1) have ne: "legal_set b last_pos \<noteq> []" by simp
  have "\<And>q. q \<in> set allowed \<Longrightarrow> get_allowed_positions (removed b q) q = Inr (replies b q)"
    using legal_available [OF assms(1,2)] replies_wf [OF assms(1)] a(1)
    by (simp add: available_def)
  with a(2) have "list_all (\<lambda>q. get_value b q = Inr (Some (value_of b q))
                    \<and> get_allowed_positions (removed b q) q = Inr (replies b q)) allowed"
    by (simp add: list_all_iff)
  with strategy_future_min_wf [OF assms(1,2) ne] a(1) show ?thesis by simp
qed

theorem future_min_first_maximum_witness:
  "wf_board board_opened
   \<and> allowed_for board_opened (Some (0, 0)) = Inr [(0, 1), (0, 2), (1, 0), (2, 0)]
   \<and> strategy_maximize_future_min board_opened (Some (0, 0)) = (Inr (Some (2, 0)), board_opened)
   \<and> first_max (key_future_min board_opened) [(0, 1), (0, 2), (1, 0), (2, 0)] (2, 0)"
proof -
  have ne: "[(0, 1), (0, 2), (1, 0), (2, 0)] \<noteq> ([] :: position list)" by simp
  note t = future_min_first_maximum [OF wf_board_opened opened_in_bounds opened_allowed ne]
  from t obtain p where "strategy_maximize_future_min board_opened (Some (0, 0)) = (Inr (Some p), board_opened)"
    and fm: "first_max (key_future_min board_opened) [(0, 1), (0, 2), (1, 0), (2, 0)] p" by blast
  then have "p = (2, 0)" by (simp add: opened_future_min)
  with fm have "first_max (key_future_min board_opened) [(0, 1), (0, 2), (1, 0), (2, 0)] (2, 0)" by simp
  with wf_board_opened opened_allowed opened_future_min show ?thesis by simp
qed

text \<open>
  What \<^verbatim>\<open>strategy_high_value_preservation\<close> computes: the first legal candidate whose
  key is lexicographically maximal, where the value the replies are compared with is
  the result of \<^verbatim>\<open>max_remaining_value\<close> on the board before any candidate is simulated,
  the same for every candidate. That result is the largest of \<open>0\<close> and the remaining
  values, because the running maximum starts at \<open>0\<close>.
\<close>

lemma high_value_code_choice:
  assumes "wf_board b" and "case last_pos of None \<Rightarrow> True | Some lp \<Rightarrow> in_bounds b lp"
    and "allowed_for b last_pos = Inr allowed" and "allowed \<noteq> []"
  shows "\<exists>gm p. max_remaining_value b = Inr gm
           \<and> gm = Max (insert 0 (value_of b ` {q. available b q}))
           \<and> strategy_high_value_preservation b last_pos = (Inr (Some p), b) \<and> p \<in> set allowed
           \<and> first_max (key_high_value b gm) allowed p
           \<and> list_all (\<lambda>q. get_value b q = Inr (Some (value_of b q))
                    \<and> get_allowed_positions (removed b q) q = Inr (replies b q)) allowed"
proof -
  note a = allowed_values [OF assms(1-3)]
  from assms(4) a(1) have ne: "legal_set b last_pos \<noteq> []" by simp
  have "\<And>q. q \<in> set allowed \<Longrightarrow> get_allowed_positions (removed b q) q = Inr (replies b q)"
    using legal_available [OF assms(1,2)] replies_wf [OF assms(1)] a(1)
    by (simp add: available_def)
  with a(2) have "list_all (\<lambda>q. get_value b q = Inr (Some (value_of b q))
                    \<and> get_allowed_positions (removed b q) q = Inr (replies b q)) allowed"
    by (simp add: list_all_iff)
  with strategy_high_value_wf [OF assms(1,2) ne] a(1) max_remaining_value_wf [OF assms(1)]
  show ?thesis by (simp add: set_all_cells)
qed

lemma first_max_upper: "first_max key xs p \<Longrightarrow> list_all (\<lambda>q. key q \<le> key p) xs"
proof -
  assume "first_max key xs p"
  then obtain pre post where xs: "xs = pre @ p # post"
    and pre: "list_all (\<lambda>q. key q < key p) pre" and post: "list_all (\<lambda>q. key q \<le> key p) post"
    unfolding first_max_def by blast
  from pre have "list_all (\<lambda>q. key q \<le> key p) pre"
    by (simp add: list_all_iff less_imp_le)
  with post xs show ?thesis by simp
qed

lemma negative_preset:
  "BoardManager L entropy 3 seed (Some [- 9, - 2, - 5, - 3, - 1, - 6, - 4, - 7, - 8])
     = Inr \<lparr>size_bm = 3, random_bm = Random L entropy seed,
            board = [[Some (- 9), Some (- 2), Some (- 5)], [Some (- 3), Some (- 1), Some (- 6)],
                     [Some (- 4), Some (- 7), Some (- 8)]],
            last_removed_pos = None\<rparr>"
  by (simp add: BoardManager_def init_board_def py_getitem_def py_index_def numeral_3_eq_3)

lemma sample_lib_unseeded: "Random sample_lib 0 None = 0"
  by (simp add: Random_def sample_lib_def)

lemmas key_defs = key_high_value_def global_max_hits_def replies_def legal_set_def row_cells_def
  column_cells_def removed_def value_of_def cell_at_def

lemma negative_keys:
  "key_high_value board_negative (- 1) (0, 1) = (- 1, - 1, - 2)"
  "key_high_value board_negative (- 1) (0, 2) = (0, 0, - 5)"
  "key_high_value board_negative (- 1) (1, 0) = (- 1, - 1, - 3)"
  "key_high_value board_negative (- 1) (2, 0) = (0, 0, - 4)"
  by (simp_all add: key_defs board_negative_def range3)

lemma negative_cells:
  "all_cells board_negative = [(0, 1), (0, 2), (1, 0), (1, 1), (1, 2), (2, 0), (2, 1), (2, 2)]"
  by (simp add: all_cells_def row_cells_def cell_at_def board_negative_def range3)

text \<open>
  Claim C5 fails on the code. On a board whose remaining values are all negative
  \<^verbatim>\<open>max_remaining_value\<close> returns \<open>0\<close>, not the highest remaining value: here the board
  built from the preset \<open>-9, -2, -5, -3, -1, -6, -4, -7, -8\<close> after the opening move at
  \<open>(0, 0)\<close>, whose highest remaining value is \<open>-1\<close> at \<open>(1, 1)\<close>. No reply ever equals
  \<open>0\<close>, so the strategy takes the candidate of highest value, \<open>(0, 1)\<close>, which exposes
  the cell \<open>(1, 1)\<close>; the key of the claim, with the real maximum \<open>-1\<close>, is first
  maximal at \<open>(2, 0)\<close> and not at \<open>(0, 1)\<close>.
\<close>

theorem high_value_negative_board:
  "(case BoardManager sample_lib 0 3 None (Some [- 9, - 2, - 5, - 3, - 1, - 6, - 4, - 7, - 8]) of
      Inl e \<Rightarrow> False
    | Inr b0 \<Rightarrow> remove_and_get b0 (0, 0) = (Inr (- 9), board_negative))
   \<and> allowed_for board_negative (Some (0, 0)) = Inr [(0, 1), (0, 2), (1, 0), (2, 0)]
   \<and> max_remaining_value board_negative = Inr 0
   \<and> Max (value_of board_negative ` set (all_cells board_negative)) = - 1
   \<and> get_value board_negative (1, 1) = Inr (Some (- 1))
   \<and> strategy_high_value_preservation board_negative (Some (0, 0))
       = (Inr (Some (0, 1)), board_negative)
   \<and> first_max (key_high_value board_negative (- 1)) [(0, 1), (0, 2), (1, 0), (2, 0)] (2, 0)
   \<and> \<not> first_max (key_high_value board_negative (- 1)) [(0, 1), (0, 2), (1, 0), (2, 0)] (0, 1)"
proof -
  have built: "case BoardManager sample_lib 0 3 None (Some [- 9, - 2, - 5, - 3, - 1, - 6, - 4, - 7, - 8]) of
      Inl e \<Rightarrow> False
    | Inr b0 \<Rightarrow> remove_and_get b0 (0, 0) = (Inr (- 9), board_negative)"
    by (simp add: negative_preset sample_lib_unseeded eval_defs board_negative_def)
  have al: "allowed_for board_negative (Some (0, 0)) = Inr [(0, 1), (0, 2), (1, 0), (2, 0)]"
    by (simp add: board_negative_def eval_defs strategy_defs range3)
  have gm: "max_remaining_value board_negative = Inr 0"
    by (simp add: board_negative_def eval_defs range3)
  have mx: "Max (value_of board_negative ` set (all_cells board_negative)) = - 1"
    by (simp add: negative_cells) (simp add: value_of_def cell_at_def board_negative_def)
  have c: "get_value board_negative (1, 1) = Inr (Some (- 1))"
    by (simp add: board_negative_def eval_defs)
  have st: "strategy_high_value_preservation board_negative (Some (0, 0))
       = (Inr (Some (0, 1)), board_negative)"
    by (simp add: board_negative_def eval_defs strategy_defs range3)
  have "[(0, 1), (0, 2), (1, 0), (2, 0)] = [(0, 1), (0, 2), (1, 0)] @ (2, 0) # ([] :: position list)
      \<and> list_all (\<lambda>q. key_high_value board_negative (- 1) q
            < key_high_value board_negative (- 1) (2, 0)) [(0, 1), (0, 2), (1, 0)]
      \<and> list_all (\<lambda>q. key_high_value board_negative (- 1) q
            \<le> key_high_value board_negative (- 1) (2, 0)) []"
    by (simp add: negative_keys)
  then have fm: "first_max (key_high_value board_negative (- 1)) [(0, 1), (0, 2), (1, 0), (2, 0)] (2, 0)"
    unfolding first_max_def by blast
  have nfm: "\<not> first_max (key_high_value board_negative (- 1)) [(0, 1), (0, 2), (1, 0), (2, 0)] (0, 1)"
  proof
    assume "first_max (key_high_value board_negative (- 1)) [(0, 1), (0, 2), (1, 0), (2, 0)] (0, 1)"
    from first_max_upper [OF this] show False by (simp add: negative_keys)
  qed
  from built al gm mx c st fm nfm show ?thesis by (intro conjI)
qed

text \<open>
  Claim C2. On a well-formed board, with \<open>last_pos\<close> absent or in bounds and a
  non-empty legal set, each of the four strategies returns a legal candidate and the
  board it leaves behind is the board it was given: same grid, same latest removed
  position.
\<close>

theorem strategies_restore_board:
  assumes "wf_board b" and "case last_pos of None \<Rightarrow> True | Some lp \<Rightarrow> in_bounds b lp"
    and "allowed_for b last_pos = Inr allowed" and "allowed \<noteq> []"
  shows "(\<exists>p. strategy_greedy_maximize b last_pos = (Inr (Some p), b) \<and> p \<in> set allowed)
    \<and> (\<exists>p. strategy_maximize_future_min b last_pos = (Inr (Some p), b) \<and> p \<in> set allowed)
    \<and> (\<exists>p. strategy_minimize_opponent_options b last_pos = (Inr (Some p), b) \<and> p \<in> set allowed)
    \<and> (\<exists>p. strategy_high_value_preservation b last_pos = (Inr (Some p), b) \<and> p \<in> set allowed)
    \<and> board (snd (strategy_greedy_maximize b last_pos)) = board b
    \<and> board (snd (strategy_maximize_future_min b last_pos)) = board b
    \<and> board (snd (strategy_minimize_opponent_options b last_pos)) = board b
    \<and> board (snd (strategy_high_value_preservation b last_pos)) = board b
    \<and> last_removed_pos (snd (strategy_greedy_maximize b last_pos)) = last_removed_pos b
    \<and> last_removed_pos (snd (strategy_maximize_future_min b last_pos)) = last_removed_pos b
    \<and> last_removed_pos (snd (strategy_minimize_opponent_options b last_pos)) = last_removed_pos b
    \<and> last_removed_pos (snd (strategy_high_value_preservation b last_pos)) = last_removed_pos b"
proof -
  note a = allowed_values [OF assms(1-3)]
  from assms(4) a(1) have ne: "legal_set b last_pos \<noteq> []" by simp
  from strategy_greedy_wf [OF assms(1,2) ne] a(1)
  have g: "\<exists>p. strategy_greedy_maximize b last_pos = (Inr (Some p), b) \<and> p \<in> set allowed" by auto
  from strategy_future_min_wf [OF assms(1,2) ne] a(1)
  have f: "\<exists>p. strategy_maximize_future_min b last_pos = (Inr (Some p), b) \<and> p \<in> set allowed" by auto
  from strategy_opponent_options_wf [OF assms(1,2) ne] a(1)
  have m: "\<exists>p. strategy_minimize_opponent_options b last_pos = (Inr (Some p), b) \<and> p \<in> set allowed"
    by auto
  from strategy_high_value_wf [OF assms(1,2) ne] a(1)
  have h: "\<exists>p. strategy_high_value_preservation b last_pos = (Inr (Some p), b) \<and> p \<in> set allowed"
    by auto
  from g have g': "snd (strategy_greedy_maximize b last_pos) = b" by auto
  from f have f': "snd (strategy_maximize_future_min b last_pos) = b" by auto
  from m have m': "snd (strategy_minimize_opponent_options b last_pos) = b" by auto
  from h have h': "snd (strategy_high_value_preservation b last_pos) = b" by auto
  show ?thesis unfolding g' f' m' h' using g f m h by simp
qed

theorem strategies_restore_board_witness:
  "wf_board board_opened
   \<and> allowed_for board_opened (Some (0, 0)) = Inr [(0, 1), (0, 2), (1, 0), (2, 0)]
   \<and> snd (strategy_greedy_maximize board_opened (Some (0, 0))) = board_opened
   \<and> snd (strategy_maximize_future_min board_opened (Some (0, 0))) = board_opened
   \<and> snd (strategy_minimize_opponent_options board_opened (Some (0, 0))) = board_opened
   \<and> snd (strategy_high_value_preservation board_opened (Some (0, 0))) = board_opened"
proof -
  have ne: "[(0, 1), (0, 2), (1, 0), (2, 0)] \<noteq> ([] :: position list)" by simp
  note t = strategies_restore_board [OF wf_board_opened opened_in_bounds opened_allowed ne]
  from t obtain p1 p2 p3 p4
    where "strategy_greedy_maximize board_opened (Some (0, 0)) = (Inr (Some p1), board_opened)"
      and "strategy_maximize_future_min board_opened (Some (0, 0)) = (Inr (Some p2), board_opened)"
      and "strategy_minimize_opponent_options board_opened (Some (0, 0)) = (Inr (Some p3), board_opened)"
      and "strategy_high_value_preservation board_opened (Some (0, 0)) = (Inr (Some p4), board_opened)"
    by blast
  with wf_board_opened opened_allowed show ?thesis by simp
qed

section \<open>The turn loop terminates\<close>























section \<open>The turn loop\<close>





























end
